theory Spec2Isabelle
  imports Complex_Main "HOL-Library.Word"
begin

section \<open>JavaScript strings\<close>

text \<open>
  A JavaScript string is a sequence of 16-bit code units; \<open>length\<close>, \<open>substring\<close>,
  \<open>startsWith\<close>, \<open>trim\<close> and regular expressions without the \<open>u\<close> flag all work on
  code units.  A literal of the source is written \<open>js ''...''\<close>.
\<close>

type_synonym jschar = "16 word"
type_synonym jsstring = "jschar list"

definition js :: "string \<Rightarrow> jsstring" where
  "js s = map of_char s"

text \<open>
  The class \<open>\s\<close> of a regular expression and the characters removed by \<open>trim()\<close>:
  ECMAScript's WhiteSpace and LineTerminator code points (TAB, LF, VT, FF, CR, SP, NBSP,
  U+1680, U+2000..U+200A, U+2028, U+2029, U+202F, U+205F, U+3000, U+FEFF).
\<close>

definition isWhiteSpace :: "jschar \<Rightarrow> bool" where
  "isWhiteSpace c \<longleftrightarrow>
     c = 9 \<or> c = 10 \<or> c = 11 \<or> c = 12 \<or> c = 13 \<or> c = 32 \<or> c = 160 \<or> c = 5760 \<or>
     (8192 \<le> c \<and> c \<le> 8202) \<or> c = 8232 \<or> c = 8233 \<or> c = 8239 \<or> c = 8287 \<or>
     c = 12288 \<or> c = 65279"

text \<open>\<open>s.trim()\<close>\<close>

definition trim :: "jsstring \<Rightarrow> jsstring" where
  "trim s = rev (dropWhile isWhiteSpace (rev (dropWhile isWhiteSpace s)))"

text \<open>\<open>s.replace(/\s+/g, '')\<close>: every maximal run of white space is deleted.\<close>

definition stripWhiteSpace :: "jsstring \<Rightarrow> jsstring" where
  "stripWhiteSpace s = filter (\<lambda>c. \<not> isWhiteSpace c) s"

text \<open>\<open>s.startsWith(p)\<close>\<close>

definition startsWith :: "jsstring \<Rightarrow> jsstring \<Rightarrow> bool" where
  "startsWith s p \<longleftrightarrow> take (length p) s = p"

text \<open>\<open>s.includes(p)\<close>\<close>

fun includes_str :: "jsstring \<Rightarrow> jsstring \<Rightarrow> bool" where
  "includes_str [] p = (p = [])"
| "includes_str (c # cs) p = (startsWith (c # cs) p \<or> includes_str cs p)"

text \<open>
  \<open>s.replace(p, r)\<close> with a string pattern \<open>p\<close>: only the first (leftmost) occurrence of
  \<open>p\<close> is replaced.
\<close>

fun replaceFirst :: "jsstring \<Rightarrow> jsstring \<Rightarrow> jsstring \<Rightarrow> jsstring" where
  "replaceFirst [] p r = (if p = [] then r else [])"
| "replaceFirst (c # cs) p r =
     (if startsWith (c # cs) p then r @ drop (length p) (c # cs)
      else c # replaceFirst cs p r)"

section \<open>Phone normalizer (\<open>DatabaseService.normalizePhone\<close>)\<close>

text \<open>
  \<^verbatim>\<open>
  let clean = input.replace('whatsapp:', '').replace(/\s+/g, '').trim();
  if (!clean.startsWith('+')) clean = `+${clean}`;
  return clean;
  \<close>
\<close>

definition normalizePhone :: "jsstring \<Rightarrow> jsstring" where
  "normalizePhone input =
     (let clean = trim (stripWhiteSpace (replaceFirst input (js ''whatsapp:'') []))
      in if \<not> startsWith clean (js ''+'') then js ''+'' @ clean else clean)"

section \<open>Messaging gateway (\<open>TwilioService\<close>)\<close>

text \<open>
  \<open>s.lastIndexOf(c, fromIndex)\<close> for a one-character search string: the largest index
  \<open>i \<le> fromIndex\<close> with \<open>s[i] = c\<close>, or \<open>-1\<close>.
\<close>

definition lastIndexOf :: "jsstring \<Rightarrow> jschar \<Rightarrow> nat \<Rightarrow> int" where
  "lastIndexOf s c fromIndex =
     (case filter (\<lambda>i. s ! i = c) (rev [0..<min (Suc fromIndex) (length s)]) of
        [] \<Rightarrow> - 1
      | i # _ \<Rightarrow> int i)"

text \<open>
  The body of the loop of \<open>splitMessage\<close>.
  \<^verbatim>\<open>
  let splitIndex = maxLength;
  const lastSpaceIndex = remainingMessage.lastIndexOf(' ', maxLength);
  if (lastSpaceIndex > maxLength * 0.8) { splitIndex = lastSpaceIndex; }
  \<close>
  \<open>maxLength * 0.8\<close> is compared in exact arithmetic (\<open>5 * i > 4 * maxLength\<close>); for the
  only value the caller passes, 1600, the double product is exactly 1280.
\<close>

definition splitIndex :: "jsstring \<Rightarrow> nat \<Rightarrow> nat" where
  "splitIndex remainingMessage maxLength =
     (let lastSpaceIndex = lastIndexOf remainingMessage 32 maxLength
      in if 5 * lastSpaceIndex > 4 * int maxLength then nat lastSpaceIndex else maxLength)"

text \<open>
  The \<open>while\<close> loop of \<open>splitMessage\<close>, with \<open>parts\<close> and \<open>remainingMessage\<close> as its
  state.  Nothing in the loop bounds the number of iterations, so it is a partial function:
  \<open>None\<close> stands for a loop that never ends.
  \<^verbatim>\<open>
  while (remainingMessage.length > 0) {
    if (remainingMessage.length <= maxLength) { parts.push(remainingMessage); break; }
    ...
    parts.push(remainingMessage.substring(0, splitIndex).trim());
    remainingMessage = remainingMessage.substring(splitIndex).trim();
  }
  return parts;
  \<close>
\<close>

partial_function (option) splitLoop ::
  "nat \<Rightarrow> jsstring list \<Rightarrow> jsstring \<Rightarrow> jsstring list option" where
  "splitLoop maxLength parts remainingMessage =
     (if length remainingMessage > 0 then
        if length remainingMessage \<le> maxLength then Some (parts @ [remainingMessage])
        else splitLoop maxLength
               (parts @ [trim (take (splitIndex remainingMessage maxLength) remainingMessage)])
               (trim (drop (splitIndex remainingMessage maxLength) remainingMessage))
      else Some parts)"

declare splitLoop.simps [code]

definition splitMessage :: "jsstring \<Rightarrow> nat \<Rightarrow> jsstring list option" where
  "splitMessage message maxLength = splitLoop maxLength [] message"

text \<open>\<open>n.toString()\<close> for a non-negative integer below \<open>10^21\<close>: its decimal digits.\<close>

fun decimal :: "nat \<Rightarrow> jsstring" where
  "decimal n = (if n < 10 then [48 + of_nat n] else decimal (n div 10) @ [48 + of_nat (n mod 10)])"

declare decimal.simps [simp del]

text \<open>\<^verbatim>\<open>`[${partNumber}/${totalParts}] ${messageParts[i]}`\<close>\<close>

definition partMessage :: "nat \<Rightarrow> nat \<Rightarrow> jsstring \<Rightarrow> jsstring" where
  "partMessage partNumber totalParts part =
     js ''['' @ decimal partNumber @ js ''/'' @ decimal totalParts @ js ''] '' @ part"

text \<open>
  The Twilio client: \<open>client.messages.create({body, from, to})\<close> answers with the message
  SID, or rejects (\<open>None\<close>), which the \<open>catch\<close> of \<open>sendWhatsAppMessage\<close> turns into
  \<open>null\<close>.
\<close>

type_synonym twilio = "jsstring \<Rightarrow> jsstring \<Rightarrow> jsstring \<Rightarrow> jsstring option"

text \<open>
  The \<open>for\<close> loop over \<open>messageParts\<close>; \<open>sent\<close> collects the bodies Twilio accepted.
  The one-second pause between two parts has no counterpart here.
\<close>

fun sendParts ::
  "twilio \<Rightarrow> jsstring \<Rightarrow> jsstring \<Rightarrow> nat \<Rightarrow> nat \<Rightarrow> jsstring list \<Rightarrow> jsstring option
     \<Rightarrow> jsstring list \<Rightarrow> jsstring list \<times> jsstring option" where
  "sendParts create whatsappNumber toWhatsApp totalParts i [] lastMessageSid sent =
     (sent, lastMessageSid)"
| "sendParts create whatsappNumber toWhatsApp totalParts i (part # rest) lastMessageSid sent =
     (let partNumber = i + 1;
          partMessage = partMessage partNumber totalParts part
      in case create partMessage whatsappNumber toWhatsApp of
           None \<Rightarrow> (sent, None)
         | Some sid \<Rightarrow>
             sendParts create whatsappNumber toWhatsApp totalParts (i + 1) rest (Some sid)
               (sent @ [partMessage]))"

definition MAX_MESSAGE_LENGTH :: nat where
  "MAX_MESSAGE_LENGTH = 1600"

text \<open>
  \<open>sendWhatsAppMessage(to, message)\<close>: the bodies handed to Twilio and accepted, and the
  returned SID (\<open>None\<close> is \<open>null\<close>).  The outer \<open>None\<close> is a call that never returns.
\<close>

definition sendWhatsAppMessage ::
  "twilio \<Rightarrow> jsstring \<Rightarrow> jsstring \<Rightarrow> jsstring \<Rightarrow> (jsstring list \<times> jsstring option) option" where
  "sendWhatsAppMessage create whatsappNumber to message =
     (let cleanPhone = trim (stripWhiteSpace (replaceFirst to (js ''whatsapp:'') []));
          cleanPhone = (if \<not> startsWith cleanPhone (js ''+'') then js ''+'' @ cleanPhone
                        else cleanPhone);
          toWhatsApp = js ''whatsapp:'' @ cleanPhone
      in if length message \<le> MAX_MESSAGE_LENGTH then
           (case create message whatsappNumber toWhatsApp of
              None \<Rightarrow> Some ([], None)
            | Some sid \<Rightarrow> Some ([message], Some sid))
         else
           (case splitMessage message MAX_MESSAGE_LENGTH of
              None \<Rightarrow> None
            | Some messageParts \<Rightarrow>
                Some (sendParts create whatsappNumber toWhatsApp (length messageParts) 0
                        messageParts None [])))"

text \<open>\<open>parseIncomingMessage\<close>: every missing field, and a missing body, reads as \<open>''\<close>.\<close>

record ParsedIncomingMessage =
  msg_from :: jsstring
  msg_body :: jsstring
  message_sid :: jsstring
  profile_name :: jsstring
  wa_id :: jsstring

definition orEmpty :: "jsstring option \<Rightarrow> jsstring" where
  "orEmpty v = (case v of None \<Rightarrow> [] | Some s \<Rightarrow> s)"

definition parseIncomingMessage :: "(string \<rightharpoonup> jsstring) option \<Rightarrow> ParsedIncomingMessage" where
  "parseIncomingMessage requestData =
     (case requestData of
        None \<Rightarrow>
          \<lparr>msg_from = [], msg_body = [], message_sid = [], profile_name = [], wa_id = []\<rparr>
      | Some d \<Rightarrow>
          \<lparr>msg_from = orEmpty (d ''From''), msg_body = orEmpty (d ''Body''),
           message_sid = orEmpty (d ''MessageSid''), profile_name = orEmpty (d ''ProfileName''),
           wa_id = orEmpty (d ''WaId'')\<rparr>)"

section \<open>Regular expressions\<close>

text \<open>
  The three patterns of the source use literals, the classes \<open>\s\<close>, \<open>\d\<close> and \<open>.\<close>,
  the quantifiers \<open>*\<close>, \<open>+\<close>, \<open>+?\<close> on a single character, \<open>?\<close>, alternation, capture
  groups, \<open>^\<close> and \<open>$\<close>, under the flags \<open>i\<close> and \<open>s\<close>.  They are matched as ECMAScript
  specifies it: a pattern is compiled into a matcher that takes the end index, the rest of
  the input, the captures and a continuation, and backtracks when the continuation fails.
\<close>

record flags =
  ignoreCase :: bool
  dotAll :: bool

datatype atom = Chr jschar | Space | Digit | Dot

datatype regex =
    Atom atom
  | Seq regex regex
  | Alt regex regex
  | Star atom
  | Plus atom
  | PlusLazy atom
  | Opt regex
  | Group nat regex
  | Bol
  | Eol

text \<open>
  \<open>Canonicalize\<close> under \<open>ignoreCase\<close> without \<open>unicode\<close>: the upper-case code unit.  Only
  ASCII letters are folded here; a code unit from 128 on never canonicalizes to an ASCII
  one, so the comparison with the ASCII characters of the three patterns is exact.
\<close>

definition canonicalize :: "jschar \<Rightarrow> jschar" where
  "canonicalize ch = (if 97 \<le> ch \<and> ch \<le> 122 then ch - 32 else ch)"

definition isLineTerminator :: "jschar \<Rightarrow> bool" where
  "isLineTerminator c \<longleftrightarrow> c = 10 \<or> c = 13 \<or> c = 8232 \<or> c = 8233"

definition isDigit :: "jschar \<Rightarrow> bool" where
  "isDigit c \<longleftrightarrow> 48 \<le> c \<and> c \<le> 57"

fun atomMatches :: "flags \<Rightarrow> atom \<Rightarrow> jschar \<Rightarrow> bool" where
  "atomMatches fl (Chr p) c =
     (if ignoreCase fl then canonicalize p = canonicalize c else p = c)"
| "atomMatches fl Space c = isWhiteSpace c"
| "atomMatches fl Digit c = isDigit c"
| "atomMatches fl Dot c = (if dotAll fl then True else \<not> isLineTerminator c)"

text \<open>Capture \<open>n\<close> of a match is \<open>caps n\<close>; \<open>None\<close> is \<open>undefined\<close>.\<close>

type_synonym captures = "nat \<Rightarrow> jsstring option"
type_synonym continuation = "nat \<Rightarrow> jsstring \<Rightarrow> captures \<Rightarrow> captures option"

text \<open>Greedy \<open>a*\<close>: as many characters as possible first, one fewer on each failure.\<close>

fun starGreedy :: "(jschar \<Rightarrow> bool) \<Rightarrow> continuation \<Rightarrow> continuation" where
  "starGreedy P k e [] caps = k e [] caps"
| "starGreedy P k e (c # cs) caps =
     (if P c then
        (case starGreedy P k (Suc e) cs caps of
           Some r \<Rightarrow> Some r
         | None \<Rightarrow> k e (c # cs) caps)
      else k e (c # cs) caps)"

text \<open>Lazy \<open>a*?\<close>: the continuation first, one more character on each failure.\<close>

fun starLazy :: "(jschar \<Rightarrow> bool) \<Rightarrow> continuation \<Rightarrow> continuation" where
  "starLazy P k e [] caps = k e [] caps"
| "starLazy P k e (c # cs) caps =
     (case k e (c # cs) caps of
        Some r \<Rightarrow> Some r
      | None \<Rightarrow> if P c then starLazy P k (Suc e) cs caps else None)"

definition one :: "(jschar \<Rightarrow> bool) \<Rightarrow> continuation \<Rightarrow> continuation" where
  "one P k e s caps =
     (case s of [] \<Rightarrow> None | c # cs \<Rightarrow> if P c then k (Suc e) cs caps else None)"

fun matcher :: "flags \<Rightarrow> regex \<Rightarrow> continuation \<Rightarrow> continuation" where
  "matcher fl (Atom a) k = one (atomMatches fl a) k"
| "matcher fl (Seq r1 r2) k = matcher fl r1 (matcher fl r2 k)"
| "matcher fl (Alt r1 r2) k =
     (\<lambda>e s caps. case matcher fl r1 k e s caps of
                    Some r \<Rightarrow> Some r
                  | None \<Rightarrow> matcher fl r2 k e s caps)"
| "matcher fl (Star a) k = starGreedy (atomMatches fl a) k"
| "matcher fl (Plus a) k = one (atomMatches fl a) (starGreedy (atomMatches fl a) k)"
| "matcher fl (PlusLazy a) k = one (atomMatches fl a) (starLazy (atomMatches fl a) k)"
| "matcher fl (Opt r) k =
     (\<lambda>e s caps. case matcher fl r k e s caps of
                    Some r \<Rightarrow> Some r
                  | None \<Rightarrow> k e s caps)"
| "matcher fl (Group n r) k =
     (\<lambda>e s caps. matcher fl r (\<lambda>e' s' caps'. k e' s' (caps'(n \<mapsto> take (e' - e) s))) e s caps)"
| "matcher fl Bol k = (\<lambda>e s caps. if e = 0 then k e s caps else None)"
| "matcher fl Eol k = (\<lambda>e s caps. if s = [] then k e s caps else None)"

definition accept :: continuation where
  "accept e s caps = Some caps"

text \<open>
  \<open>RegExp.prototype.exec\<close> without the \<open>g\<close> flag, which \<open>String.prototype.match\<close> and
  \<open>test\<close> call: the match is tried at index 0, then 1, and so on up to the length.
\<close>

fun execFrom :: "flags \<Rightarrow> regex \<Rightarrow> nat \<Rightarrow> jsstring \<Rightarrow> captures option" where
  "execFrom fl r e [] = matcher fl r accept e [] Map.empty"
| "execFrom fl r e (c # cs) =
     (case matcher fl r accept e (c # cs) Map.empty of
        Some caps \<Rightarrow> Some caps
      | None \<Rightarrow> execFrom fl r (Suc e) cs)"

definition exec :: "flags \<Rightarrow> regex \<Rightarrow> jsstring \<Rightarrow> captures option" where
  "exec fl r s = execFrom fl r 0 s"

definition regexTest :: "flags \<Rightarrow> regex \<Rightarrow> jsstring \<Rightarrow> bool" where
  "regexTest fl r s = (exec fl r s \<noteq> None)"

text \<open>
  A pattern is written as the list of its parts and a literal as its characters.  The
  empty list, which no pattern here uses, is the pattern that matches the empty string.
\<close>

fun seqs :: "regex list \<Rightarrow> regex" where
  "seqs [r] = r"
| "seqs (r # rs) = Seq r (seqs rs)"
| "seqs [] = Opt Bol"

definition lit :: "string \<Rightarrow> regex" where
  "lit s = seqs (map (\<lambda>c. Atom (Chr (of_char c))) s)"

text \<open>\<^verbatim>\<open>/^weekly report$/i\<close>\<close>

definition weeklyReportPattern :: regex where
  "weeklyReportPattern = seqs [Bol, lit ''weekly report'', Eol]"

definition weeklyReportFlags :: flags where
  "weeklyReportFlags = \<lparr>ignoreCase = True, dotAll = False\<rparr>"

text \<open>
  \<^verbatim>\<open>/Goal\s*:\s*(.+?)(?:\s*\||\n|$)\s*Reason\s*:\s*(.+?)(?:\s*\||\n|$)\s*Timeline\s*:\s*(.+)/is\<close>
\<close>

definition goalSeparator :: regex where
  "goalSeparator = Alt (Seq (Star Space) (Atom (Chr 124))) (Alt (Atom (Chr 10)) Eol)"

definition goalPattern :: regex where
  "goalPattern = seqs
     [lit ''Goal'', Star Space, lit '':'', Star Space, Group 1 (PlusLazy Dot), goalSeparator,
      Star Space, lit ''Reason'', Star Space, lit '':'', Star Space, Group 2 (PlusLazy Dot),
      goalSeparator,
      Star Space, lit ''Timeline'', Star Space, lit '':'', Star Space, Group 3 (Plus Dot)]"

definition goalFlags :: flags where
  "goalFlags = \<lparr>ignoreCase = True, dotAll = True\<rparr>"

text \<open>
  \<open>goalMatch[1].trim()\<close>, \<open>goalMatch[2].trim()\<close>, \<open>goalMatch[3].trim()\<close>; reading
  \<open>trim\<close> from an undefined group is a \<open>TypeError\<close> (\<open>None\<close>).
\<close>

definition goalFields :: "captures \<Rightarrow> (jsstring \<times> jsstring \<times> jsstring) option" where
  "goalFields goalMatch =
     (case (goalMatch 1, goalMatch 2, goalMatch 3) of
        (Some g1, Some g2, Some g3) \<Rightarrow> Some (trim g1, trim g2, trim g3)
      | _ \<Rightarrow> None)"

text \<open>
  The two written forms of a goal declaration, from the comment above \<open>goalPattern\<close>:
  \<^verbatim>\<open>Goal: ... | Reason: ... | Timeline: ...\<close> and the same with a line break in place
  of each pipe.
\<close>

definition pipeForm :: "jsstring \<Rightarrow> jsstring \<Rightarrow> jsstring \<Rightarrow> jsstring" where
  "pipeForm X Y Z = js ''Goal: '' @ X @ js '' | Reason: '' @ Y @ js '' | Timeline: '' @ Z"

definition newlineForm :: "jsstring \<Rightarrow> jsstring \<Rightarrow> jsstring \<Rightarrow> jsstring" where
  "newlineForm X Y Z = js ''Goal: '' @ X @ 10 # js ''Reason: '' @ Y @ 10 # js ''Timeline: '' @ Z"

section \<open>Check-in extractor, strict stage (\<open>OpenAIService.parseMorningCheckin\<close>)\<close>

record DailyCheckin =
  previous_day_activities :: "jsstring option"
  previous_day_routine :: "jsstring option"
  previous_day_highlights :: "jsstring option"
  previous_day_challenges :: "jsstring option"
  current_mood :: "jsstring option"
  current_energy_level :: "jsstring option"
  current_motivation :: "jsstring option"
  sleep_hours :: "rat option"
  sleep_quality :: "jsstring option"
  today_plans :: "jsstring option"
  today_priorities :: "jsstring list option"
  today_goals :: "jsstring list option"
  c_notes :: "jsstring option"
  reflections :: "jsstring option"
  concerns :: "jsstring option"

definition emptyCheckin :: DailyCheckin where
  "emptyCheckin =
     \<lparr>previous_day_activities = None, previous_day_routine = None,
      previous_day_highlights = None, previous_day_challenges = None, current_mood = None,
      current_energy_level = None, current_motivation = None, sleep_hours = None,
      sleep_quality = None, today_plans = None, today_priorities = None, today_goals = None,
      c_notes = None, reflections = None, concerns = None\<rparr>"

text \<open>
  \<^verbatim>\<open>/Sleep\s+(\d+(?:\.\d+)?)h?\s*\|\s*Mood\s+(\d+)\s*\|\s*Energy\s+(\d+)\s*\|\s*Notes:\s*(.+)/i\<close>
\<close>

definition checkinPattern :: regex where
  "checkinPattern = seqs
     [lit ''Sleep'', Plus Space,
      Group 1 (Seq (Plus Digit) (Opt (Seq (Atom (Chr 46)) (Plus Digit)))),
      Opt (Atom (Chr 104)), Star Space, Atom (Chr 124), Star Space,
      lit ''Mood'', Plus Space, Group 2 (Plus Digit), Star Space, Atom (Chr 124), Star Space,
      lit ''Energy'', Plus Space, Group 3 (Plus Digit), Star Space, Atom (Chr 124), Star Space,
      lit ''Notes:'', Star Space, Group 4 (Plus Dot)]"

definition checkinFlags :: flags where
  "checkinFlags = \<lparr>ignoreCase = True, dotAll = False\<rparr>"

text \<open>
  \<open>parseInt(s, 10)\<close> and \<open>parseFloat(s)\<close> on what groups 1 to 3 can hold: a digit string,
  for group 1 with an optional fraction.  The value is exact here; JavaScript rounds it to
  the nearest double, which changes nothing below \<open>2^53\<close> for \<open>parseInt\<close>.
\<close>

definition digitValue :: "jschar \<Rightarrow> nat" where
  "digitValue c = unat (c - 48)"

definition parseInt :: "jsstring \<Rightarrow> nat" where
  "parseInt s = foldl (\<lambda>n c. 10 * n + digitValue c) 0 (takeWhile isDigit s)"

definition parseFloat :: "jsstring \<Rightarrow> rat" where
  "parseFloat s =
     (let whole = takeWhile isDigit s;
          rest = dropWhile isDigit s;
          fraction = (case rest of
                        [] \<Rightarrow> []
                      | c # cs \<Rightarrow> if c = 46 then takeWhile isDigit cs else [])
      in of_nat (parseInt whole) + of_nat (parseInt fraction) / 10 ^ length fraction)"

text \<open>
  \<open>parseMorningCheckin\<close>: \<open>None\<close> is \<open>null\<close>, returned when the pattern does not match
  and from the \<open>catch\<close> block.
\<close>

definition parseMorningCheckin :: "jsstring \<Rightarrow> DailyCheckin option" where
  "parseMorningCheckin message =
     (case exec checkinFlags checkinPattern message of
        None \<Rightarrow> None
      | Some match \<Rightarrow>
          (case (match 1, match 2, match 3, match 4) of
             (Some m1, Some m2, Some m3, Some m4) \<Rightarrow>
               (let sleep = parseFloat m1;
                    mood = parseInt m2;
                    energy = parseInt m3;
                    notes = trim m4
                in Some (emptyCheckin
                     \<lparr>sleep_hours := Some sleep,
                      current_mood := Some (decimal mood),
                      current_energy_level := Some (decimal energy),
                      c_notes := Some notes\<rparr>))
           | _ \<Rightarrow> None))"

section \<open>Persistence gateway (\<open>DatabaseService\<close>)\<close>

text \<open>
  The tables are lists of rows in insertion order, each with the counter of its \<open>SERIAL\<close>
  key.  A calendar date is the number of its day: the source holds it as the string
  \<open>yyyy-MM-dd\<close>, and compares such strings, whose order is the order of the days.  A time
  stamp is a number read from the clock; the start and end of a milestone, which the
  language model writes as such strings, are days as well.  Every query is answered (no connection or
  constraint error): the paths on which the store fails are not part of this model.
\<close>

type_synonym date = int
type_synonym timestamp = nat

datatype direction = inbound | outbound
datatype breakdown_type = weekly | monthly

record UserRecord =
  u_id :: nat
  u_phone :: jsstring
  u_name :: "jsstring option"
  u_timezone :: jsstring
  u_created_at :: timestamp

record MessageRecord =
  m_id :: nat
  m_user_id :: nat
  m_direction :: direction
  m_body :: jsstring
  m_timestamp :: timestamp

text \<open>\<open>checkin_json\<close> is \<open>null\<close> (\<open>None\<close>) or the stored check-in object, which is truthy.\<close>

record DailyLogRecord =
  dl_id :: nat
  dl_user_id :: nat
  dl_date :: date
  dl_checkin_json :: "DailyCheckin option"
  dl_created_at :: timestamp
  dl_updated_at :: timestamp

record GoalRecord =
  g_id :: nat
  g_user_id :: nat
  g_main_goal :: jsstring
  g_reason :: "jsstring option"
  g_timeline :: "jsstring option"
  g_created_at :: timestamp
  g_updated_at :: timestamp
  g_is_active :: bool

record GoalBreakdownInput =
  gb_type :: breakdown_type
  gb_start_date :: date
  gb_end_date :: date
  gb_description :: jsstring

record GoalBreakdownRecord = GoalBreakdownInput +
  gb_id :: nat
  gb_goal_id :: nat
  gb_created_at :: timestamp

record database =
  users :: "UserRecord list"
  users_seq :: nat
  messages :: "MessageRecord list"
  messages_seq :: nat
  daily_logs :: "DailyLogRecord list"
  daily_logs_seq :: nat
  goals :: "GoalRecord list"
  goals_seq :: nat
  goal_breakdowns :: "GoalBreakdownRecord list"
  goal_breakdowns_seq :: nat

definition emptyDatabase :: database where
  "emptyDatabase =
     \<lparr>users = [], users_seq = 1, messages = [], messages_seq = 1, daily_logs = [],
      daily_logs_seq = 1, goals = [], goals_seq = 1, goal_breakdowns = [],
      goal_breakdowns_seq = 1\<rparr>"

text \<open>\<open>.maybeSingle()\<close>: the row when exactly one matches, otherwise no data.\<close>

definition maybeSingle :: "'a list \<Rightarrow> 'a option" where
  "maybeSingle rows = (case rows of [r] \<Rightarrow> Some r | _ \<Rightarrow> None)"

definition getUserByPhone :: "database \<Rightarrow> jsstring \<Rightarrow> UserRecord option" where
  "getUserByPhone db phone =
     (let normalized = normalizePhone phone
      in maybeSingle (filter (\<lambda>u. u_phone u = normalized) (users db)))"

definition createUser ::
  "timestamp \<Rightarrow> database \<Rightarrow> jsstring \<Rightarrow> jsstring option \<Rightarrow> UserRecord \<times> database" where
  "createUser now db phone name =
     (let normalized = normalizePhone phone;
          existing = maybeSingle (filter (\<lambda>u. u_phone u = normalized) (users db))
      in case existing of
           Some u \<Rightarrow> (u, db)
         | None \<Rightarrow>
             (let userData = \<lparr>u_id = users_seq db, u_phone = normalized, u_name = name,
                              u_timezone = js ''UTC'', u_created_at = now\<rparr>
              in (userData,
                  db\<lparr>users := users db @ [userData], users_seq := users_seq db + 1\<rparr>)))"

definition logMessage ::
  "timestamp \<Rightarrow> database \<Rightarrow> nat \<Rightarrow> direction \<Rightarrow> jsstring \<Rightarrow> MessageRecord \<times> database" where
  "logMessage now db userId direction body =
     (let messageData = \<lparr>m_id = messages_seq db, m_user_id = userId, m_direction = direction,
                         m_body = body, m_timestamp = now\<rparr>
      in (messageData,
          db\<lparr>messages := messages db @ [messageData], messages_seq := messages_seq db + 1\<rparr>))"

text \<open>
  \<open>createDailyLog\<close>: look the row of \<open>(userId, date)\<close> up; update it by its \<open>id\<close> when
  there is one, insert otherwise.  \<open>checkin_json ?? null\<close> is the payload as given.
\<close>

definition createDailyLog ::
  "timestamp \<Rightarrow> database \<Rightarrow> nat \<Rightarrow> date \<Rightarrow> DailyCheckin option
     \<Rightarrow> DailyLogRecord option \<times> database" where
  "createDailyLog now db userId date checkin_json =
     (let existing = maybeSingle
            (filter (\<lambda>l. dl_user_id l = userId \<and> dl_date l = date) (daily_logs db))
      in case existing of
           Some e \<Rightarrow>
             (let upd = (\<lambda>l. if dl_id l = dl_id e
                              then l\<lparr>dl_user_id := userId, dl_date := date,
                                     dl_checkin_json := checkin_json, dl_updated_at := now\<rparr>
                              else l);
                  db' = db\<lparr>daily_logs := map upd (daily_logs db)\<rparr>
              in (maybeSingle (filter (\<lambda>l. dl_id l = dl_id e) (daily_logs db')), db'))
         | None \<Rightarrow>
             (let toInsert = \<lparr>dl_id = daily_logs_seq db, dl_user_id = userId, dl_date = date,
                              dl_checkin_json = checkin_json, dl_created_at = now,
                              dl_updated_at = now\<rparr>
              in (Some toInsert,
                  db\<lparr>daily_logs := daily_logs db @ [toInsert],
                     daily_logs_seq := daily_logs_seq db + 1\<rparr>)))"

text \<open>\<open>.order('date', {ascending})\<close>: a stable sort by date.\<close>

definition getDailyLogsInRange :: "database \<Rightarrow> nat \<Rightarrow> date \<Rightarrow> date \<Rightarrow> DailyLogRecord list" where
  "getDailyLogsInRange db userId startDate endDate =
     sort_key dl_date
       (filter (\<lambda>l. dl_user_id l = userId \<and> dl_date l \<ge> startDate \<and> dl_date l \<le> endDate)
          (daily_logs db))"

definition getRecentCheckIns :: "date \<Rightarrow> database \<Rightarrow> nat \<Rightarrow> nat \<Rightarrow> DailyLogRecord list" where
  "getRecentCheckIns today db userId days =
     (let startDate = today - int days
      in rev (sort_key dl_date
           (filter (\<lambda>l. dl_user_id l = userId \<and> dl_date l \<ge> startDate \<and> dl_date l < today)
              (daily_logs db))))"

definition setMainGoal ::
  "timestamp \<Rightarrow> database \<Rightarrow> nat \<Rightarrow> jsstring \<Rightarrow> jsstring option \<Rightarrow> jsstring option
     \<Rightarrow> GoalRecord \<times> database" where
  "setMainGoal now db userId main_goal reason timeline =
     (let inserted = \<lparr>g_id = goals_seq db, g_user_id = userId, g_main_goal = main_goal,
                    g_reason = reason, g_timeline = timeline, g_created_at = now,
                    g_updated_at = now, g_is_active = True\<rparr>
      in (inserted, db\<lparr>goals := goals db @ [inserted], goals_seq := goals_seq db + 1\<rparr>))"

definition getActiveGoals :: "database \<Rightarrow> nat \<Rightarrow> GoalRecord list" where
  "getActiveGoals db userId =
     filter (\<lambda>g. g_user_id g = userId \<and> g_is_active g = True) (goals db)"

fun addGoalBreakdowns ::
  "timestamp \<Rightarrow> database \<Rightarrow> nat \<Rightarrow> GoalBreakdownInput list \<Rightarrow> database" where
  "addGoalBreakdowns now db goalId [] = db"
| "addGoalBreakdowns now db goalId (b # bs) =
     addGoalBreakdowns now
       (db\<lparr>goal_breakdowns := goal_breakdowns db @
              [GoalBreakdownInput.extend b
                 \<lparr>gb_id = goal_breakdowns_seq db, gb_goal_id = goalId, gb_created_at = now\<rparr>],
           goal_breakdowns_seq := goal_breakdowns_seq db + 1\<rparr>)
       goalId bs"

definition getGoalBreakdowns :: "database \<Rightarrow> nat \<Rightarrow> GoalBreakdownRecord list" where
  "getGoalBreakdowns db goalId = filter (\<lambda>b. gb_goal_id b = goalId) (goal_breakdowns db)"

text \<open>
  The constraints \<open>database_schema.sql\<close> puts on \<open>daily_logs\<close>: \<open>id SERIAL PRIMARY KEY\<close>
  (the keys are distinct and below the counter) and \<open>UNIQUE(user_id, date)\<close>.
\<close>

definition daily_logs_ok :: "database \<Rightarrow> bool" where
  "daily_logs_ok db \<longleftrightarrow>
     distinct (map dl_id (daily_logs db)) \<and>
     list_all (\<lambda>l. dl_id l < daily_logs_seq db) (daily_logs db) \<and>
     distinct (map (\<lambda>l. (dl_user_id l, dl_date l)) (daily_logs db))"

section \<open>Weekly report (\<open>generateWeeklyReport\<close>)\<close>

text \<open>
  \<^verbatim>\<open>
  function countCheckins(logs) {
    let count = 0;
    for (const log of logs) { if (log.checkin_json) count++; }
    return count;
  }
  \<close>
\<close>

definition countCheckins :: "DailyLogRecord list \<Rightarrow> nat" where
  "countCheckins logs = fold (\<lambda>l count. if dl_checkin_json l \<noteq> None then count + 1 else count) logs 0"

text \<open>
  \<open>Math.round((checkinsThisWeek / 7) * 100)\<close>; \<open>Math.round x\<close> is \<open>\<lfloor>x + 1/2\<rfloor>\<close>, which is
  \<^const>\<open>round\<close>.  The quotient is taken exactly: \<open>100 c / 7\<close> is never within \<open>1/14\<close> of a
  half, so rounding the double gives the same integer.
\<close>

definition completenessRate :: "nat \<Rightarrow> int" where
  "completenessRate checkinsThisWeek = round ((real checkinsThisWeek / 7) * 100)"

text \<open>
  \<^verbatim>\<open>
  function longestStreak(logs, weekStart, weekEnd) {
    let streak = 0, maxStreak = 0;
    for (let i = 0; i < 7; i++) {
      const date = format(subDays(weekEnd, 6 - i), 'yyyy-MM-dd');
      const log = logs.find(l => l.date === date);
      if (log && log.checkin_json) { streak++; if (streak > maxStreak) maxStreak = streak; }
      else { streak = 0; }
    }
    return maxStreak;
  }
  \<close>
\<close>

definition hasCheckin :: "DailyLogRecord list \<Rightarrow> date \<Rightarrow> bool" where
  "hasCheckin logs date =
     (case find (\<lambda>l. dl_date l = date) logs of
        None \<Rightarrow> False
      | Some l \<Rightarrow> dl_checkin_json l \<noteq> None)"

definition streakStep :: "bool \<Rightarrow> nat \<times> nat \<Rightarrow> nat \<times> nat" where
  "streakStep present = (\<lambda>(streak, maxStreak).
     if present then (streak + 1, if streak + 1 > maxStreak then streak + 1 else maxStreak)
     else (0, maxStreak))"

definition longestStreak :: "DailyLogRecord list \<Rightarrow> date \<Rightarrow> date \<Rightarrow> nat" where
  "longestStreak logs weekStart weekEnd =
     snd (fold (\<lambda>i. streakStep (hasCheckin logs (weekEnd - (6 - int i)))) [0..<7] (0, 0))"

record summaryData =
  sd_checkinsThisWeek :: nat
  sd_checkinsLastWeek :: nat
  sd_completenessRate :: int
  sd_streak :: nat
  sd_logsThisWeek :: "DailyLogRecord list"
  sd_logsLastWeek :: "DailyLogRecord list"
  sd_activeGoals :: "GoalRecord list"
  sd_goalBreakdowns :: "(nat \<times> GoalBreakdownRecord list) list"

text \<open>The figures of the report, computed before the language model is asked.\<close>

definition weeklySummary :: "date \<Rightarrow> database \<Rightarrow> nat \<Rightarrow> summaryData" where
  "weeklySummary today db userId =
     (let startOfThisWeek = today - 6;
          startOfLastWeek = today - 13;
          dailyLogs = getDailyLogsInRange db userId startOfLastWeek today;
          activeGoals = getActiveGoals db userId;
          goalBreakdowns = map (\<lambda>goal. (g_id goal, getGoalBreakdowns db (g_id goal))) activeGoals;
          logsThisWeek = filter (\<lambda>l. dl_date l \<ge> startOfThisWeek \<and> dl_date l \<le> today) dailyLogs;
          logsLastWeek = filter (\<lambda>l. dl_date l \<ge> startOfLastWeek \<and> dl_date l < startOfThisWeek)
                           dailyLogs;
          checkinsThisWeek = countCheckins logsThisWeek;
          checkinsLastWeek = countCheckins logsLastWeek;
          completenessRate = completenessRate checkinsThisWeek;
          streak = longestStreak logsThisWeek startOfThisWeek today
      in \<lparr>sd_checkinsThisWeek = checkinsThisWeek, sd_checkinsLastWeek = checkinsLastWeek,
          sd_completenessRate = completenessRate, sd_streak = streak,
          sd_logsThisWeek = logsThisWeek, sd_logsLastWeek = logsLastWeek,
          sd_activeGoals = activeGoals, sd_goalBreakdowns = goalBreakdowns\<rparr>)"

text \<open>
  The specification's reading of the streak, stated on the rows and not through the loop.
  A day has a check-in when some row of that date holds a payload that is not \<open>null\<close>;
  \<open>windowDays\<close> tells this for the seven days that end with \<open>weekEnd\<close>, oldest first;
  \<open>leadingDays\<close> counts the consecutive such days at the start of a list, and
  \<open>longestRun\<close> is the greatest such count over all the days a run can start on.
\<close>

definition dayHasPayload :: "DailyLogRecord list \<Rightarrow> date \<Rightarrow> bool" where
  "dayHasPayload logs d \<longleftrightarrow> list_ex (\<lambda>l. dl_date l = d \<and> dl_checkin_json l \<noteq> None) logs"

definition windowDays :: "DailyLogRecord list \<Rightarrow> date \<Rightarrow> bool list" where
  "windowDays logs weekEnd =
     map (dayHasPayload logs)
       [weekEnd - 6, weekEnd - 5, weekEnd - 4, weekEnd - 3, weekEnd - 2, weekEnd - 1, weekEnd]"

fun leadingDays :: "bool list \<Rightarrow> nat" where
  "leadingDays [] = 0"
| "leadingDays (b # bs) = (if b then Suc (leadingDays bs) else 0)"

fun longestRun :: "bool list \<Rightarrow> nat" where
  "longestRun [] = 0"
| "longestRun (b # bs) = max (leadingDays (b # bs)) (longestRun bs)"

section \<open>Webhook handler (\<open>handleWhatsAppWebhook\<close>)\<close>

text \<open>
  What a request reads from outside the store: the Twilio client and sender address, the
  clock, today's date (in UTC for the daily log, in local time for the weekly report), and
  the language model behind the five generators of \<open>OpenAIService\<close>.  Each generator
  catches its own errors and returns a text, a list or \<open>null\<close>, so each is a function.
  \<open>llm_parseCheckin\<close> is the second stage of \<open>parseMorningCheckinFlexible\<close> (the keyword
  filter and the extraction by the model).
\<close>

record env =
  twilio_create :: twilio
  twilio_number :: jsstring
  clock :: timestamp
  todayUTC :: date
  todayLocal :: date
  llm_generateWeeklyReport :: "summaryData \<Rightarrow> jsstring"
  llm_generateGoalBreakdowns :: "jsstring \<Rightarrow> jsstring option \<Rightarrow> GoalBreakdownInput list"
  llm_parseCheckin :: "jsstring \<Rightarrow> DailyCheckin option"
  llm_generateDailyPlan ::
    "DailyCheckin \<Rightarrow> jsstring option \<Rightarrow> jsstring option \<Rightarrow> DailyLogRecord list \<Rightarrow> jsstring"
  llm_generateGeneralResponse :: "jsstring \<Rightarrow> jsstring option \<Rightarrow> GoalRecord list \<Rightarrow> jsstring"

definition generateWeeklyReport :: "env \<Rightarrow> database \<Rightarrow> nat \<Rightarrow> jsstring" where
  "generateWeeklyReport env db userId =
     llm_generateWeeklyReport env (weeklySummary (todayLocal env) db userId)"

text \<open>\<open>parseMorningCheckinFlexible\<close>: the strict pattern first, the model only after it.\<close>

definition parseMorningCheckinFlexible :: "env \<Rightarrow> jsstring \<Rightarrow> DailyCheckin option" where
  "parseMorningCheckinFlexible env message =
     (case parseMorningCheckin message of
        Some strict \<Rightarrow> Some strict
      | None \<Rightarrow> llm_parseCheckin env message)"

text \<open>
  \<^verbatim>\<open>
  let checkin = openAIService.parseMorningCheckin(messageBody);
  if (!checkin) { checkin = await openAIService.parseMorningCheckinFlexible(messageBody); }
  \<close>
\<close>

definition resolveCheckin :: "env \<Rightarrow> jsstring \<Rightarrow> DailyCheckin option" where
  "resolveCheckin env messageBody =
     (case parseMorningCheckin messageBody of
        Some checkin \<Rightarrow> Some checkin
      | None \<Rightarrow> parseMorningCheckinFlexible env messageBody)"

text \<open>\<open>x || null\<close> and \<open>x || undefined\<close> on a string or \<open>null\<close>: the empty string is dropped.\<close>

definition orNull :: "jsstring option \<Rightarrow> jsstring option" where
  "orNull v = (case v of None \<Rightarrow> None | Some s \<Rightarrow> if s = [] then None else Some s)"

text \<open>\<open>if (messageSid)\<close>\<close>

definition truthy :: "jsstring option \<Rightarrow> bool" where
  "truthy v = (orNull v \<noteq> None)"

fun joinWith :: "jsstring \<Rightarrow> jsstring list \<Rightarrow> jsstring" where
  "joinWith sep [] = []"
| "joinWith sep [x] = x"
| "joinWith sep (x # xs) = x @ sep @ joinWith sep xs"

text \<open>The loop that builds \<open>goalContext\<close>, one numbered line for each active goal.\<close>

fun goalContextLines :: "date \<Rightarrow> database \<Rightarrow> nat \<Rightarrow> GoalRecord list \<Rightarrow> jsstring" where
  "goalContextLines today db i [] = []"
| "goalContextLines today db i (goal # rest) =
     (let breakdowns = getGoalBreakdowns db (g_id goal);
          relevant = filter (\<lambda>b. today \<ge> gb_start_date b \<and> today \<le> gb_end_date b) breakdowns;
          milestone = (if length relevant > 0
                       then js '' (current milestone: '' @
                            joinWith (js ''; '') (map gb_description relevant) @ js '')''
                       else [])
      in decimal (i + 1) @ js ''. '' @ g_main_goal goal @
         (case orNull (g_timeline goal) of None \<Rightarrow> [] | Some t \<Rightarrow> js '' by '' @ t) @
         milestone @ [10] @ goalContextLines today db (i + 1) rest)"

datatype json_body =
    ErrorBody jsstring
  | StatusBody jsstring
  | StatusSidBody jsstring "jsstring option"

record response =
  status :: nat
  json :: json_body

text \<open>
  The result of one request: the HTTP response, the store afterwards and the message
  bodies Twilio accepted.
\<close>

record outcome =
  out_response :: response
  out_db :: database
  out_sent :: "jsstring list"

text \<open>
  Lines 141 to 151, shared by the goal, check-in and fallback branches.
  \<^verbatim>\<open>
  const messageSid = await twilioService.sendWhatsAppMessage(phone, responseMessage);
  if (messageSid) { await db.logMessage(user.id, 'outbound', responseMessage); }
  return res.json({ status: 'success', message_sid: messageSid });
  \<close>
\<close>

definition sendReply :: "env \<Rightarrow> database \<Rightarrow> UserRecord \<Rightarrow> jsstring \<Rightarrow> jsstring \<Rightarrow> outcome option" where
  "sendReply env db user phone responseMessage =
     (case sendWhatsAppMessage (twilio_create env) (twilio_number env) phone responseMessage of
        None \<Rightarrow> None
      | Some (sent, messageSid) \<Rightarrow>
          (let db = (if truthy messageSid
                     then snd (logMessage (clock env) db (u_id user) outbound responseMessage)
                     else db)
           in Some \<lparr>out_response = \<lparr>status = 200, json = StatusSidBody (js ''success'') messageSid\<rparr>,
                    out_db = db, out_sent = sent\<rparr>))"

text \<open>
  Lines 37 to 44, the weekly-report command.
  \<^verbatim>\<open>
  const report = await generateWeeklyReport(user.id);
  await twilioService.sendWhatsAppMessage(phone, report);
  await db.logMessage(user.id, 'outbound', report);
  return res.json({ status: 'Weekly report sent' });
  \<close>
\<close>

definition weeklyReportBranch :: "env \<Rightarrow> database \<Rightarrow> UserRecord \<Rightarrow> jsstring \<Rightarrow> outcome option" where
  "weeklyReportBranch env db user phone =
     (let report = generateWeeklyReport env db (u_id user)
      in case sendWhatsAppMessage (twilio_create env) (twilio_number env) phone report of
           None \<Rightarrow> None
         | Some (sent, _) \<Rightarrow>
             (let db = snd (logMessage (clock env) db (u_id user) outbound report)
              in Some \<lparr>out_response = \<lparr>status = 200, json = StatusBody (js ''Weekly report sent'')\<rparr>,
                       out_db = db, out_sent = sent\<rparr>))"

text \<open>
  Lines 56 to 80, a goal declaration.  The \<open>catch\<close> of this branch answers a failure of
  the store with an apology; the store of this model does not fail.
\<close>

definition goalBranch ::
  "env \<Rightarrow> database \<Rightarrow> UserRecord \<Rightarrow> jsstring \<times> jsstring \<times> jsstring \<Rightarrow> jsstring \<times> database" where
  "goalBranch env db user declared =
     (case declared of (main_goal, reason, timeline) \<Rightarrow>
        (let (goal, db) = setMainGoal (clock env) db (u_id user) main_goal
                            (orNull (Some reason)) (orNull (Some timeline));
             breakdowns = llm_generateGoalBreakdowns env main_goal (orNull (Some timeline));
             db = (if length breakdowns > 0
                   then addGoalBreakdowns (clock env) db (g_id goal) breakdowns
                   else db)
         in (js ''Your main goal has been set!'' @ [10] @ js ''Goal: '' @ main_goal @ [10] @
             js ''Reason: '' @ reason @ [10] @ js ''Timeline: '' @ timeline @ [10] @
             js ''Milestones have been generated. You can now send your daily check-ins!'',
             db)))"

definition checkinBranch ::
  "env \<Rightarrow> database \<Rightarrow> UserRecord \<Rightarrow> DailyCheckin \<Rightarrow> jsstring \<times> database" where
  "checkinBranch env db user checkin =
     (let today = todayUTC env;
          db = snd (createDailyLog (clock env) db (u_id user) today (Some checkin));
          recentCheckIns = getRecentCheckIns today db (u_id user) 4;
          activeGoals = getActiveGoals db (u_id user);
          goalContext = (if length activeGoals > 0
                         then js ''Goals:'' @ [10] @ goalContextLines today db 0 activeGoals
                         else []);
          dailyPlan = llm_generateDailyPlan env checkin (orNull (u_name user))
                        (orNull (Some goalContext)) recentCheckIns
      in (js ''Here's your personalized daily plan based on your check-in and recent patterns:'' @
          [10, 10] @ dailyPlan,
          db))"

definition generalBranch :: "env \<Rightarrow> database \<Rightarrow> UserRecord \<Rightarrow> jsstring \<Rightarrow> jsstring" where
  "generalBranch env db user messageBody =
     (let activeGoals = getActiveGoals db (u_id user)
      in llm_generateGeneralResponse env messageBody (orNull (u_name user)) activeGoals)"

text \<open>
  \<open>handleWhatsAppWebhook\<close>.  \<open>None\<close> is a request that never gets its response.  The
  response 500 of the outer \<open>catch\<close> is reached here by the one exception the handler can
  raise by itself, reading an undefined capture group.
\<close>

definition handleWhatsAppWebhook ::
  "env \<Rightarrow> database \<Rightarrow> (string \<rightharpoonup> jsstring) option \<Rightarrow> outcome option" where
  "handleWhatsAppWebhook env db reqBody =
     (let messageData = parseIncomingMessage reqBody
      in if msg_from messageData = [] \<or> msg_body messageData = [] then
           Some \<lparr>out_response = \<lparr>status = 400, json = ErrorBody (js ''Invalid message data'')\<rparr>,
                 out_db = db, out_sent = []\<rparr>
         else
           (let phone = msg_from messageData;
                messageBody = msg_body messageData;
                (user, db) =
                  (case getUserByPhone db phone of
                     Some user \<Rightarrow> (user, db)
                   | None \<Rightarrow>
                       (let name = trim (profile_name messageData)
                        in createUser (clock env) db phone (orNull (Some name))));
                db = snd (logMessage (clock env) db (u_id user) inbound messageBody)
            in if regexTest weeklyReportFlags weeklyReportPattern (trim messageBody) then
                 weeklyReportBranch env db user phone
               else
                 (case exec goalFlags goalPattern messageBody of
                    Some goalMatch \<Rightarrow>
                      (case goalFields goalMatch of
                         None \<Rightarrow>
                           Some \<lparr>out_response =
                                   \<lparr>status = 500, json = ErrorBody (js ''Internal server error'')\<rparr>,
                                 out_db = db, out_sent = []\<rparr>
                       | Some declared \<Rightarrow>
                           (let (responseMessage, db) = goalBranch env db user declared
                            in sendReply env db user phone responseMessage))
                  | None \<Rightarrow>
                      (case resolveCheckin env messageBody of
                         Some checkin \<Rightarrow>
                           (let (responseMessage, db) = checkinBranch env db user checkin
                            in sendReply env db user phone responseMessage)
                       | None \<Rightarrow>
                           sendReply env db user phone
                             (generalBranch env db user messageBody)))))"

text \<open>
  An environment for the examples: the Twilio client is given, the clock and the dates
  are fixed, and the language model answers every request with a fixed short text, no
  milestones and no check-in.
\<close>

definition exampleEnv :: "twilio \<Rightarrow> env" where
  "exampleEnv create =
     \<lparr>twilio_create = create, twilio_number = js ''whatsapp:+14155238886'', clock = 1000,
      todayUTC = 20000, todayLocal = 20000,
      llm_generateWeeklyReport = (\<lambda>summary. js ''Your week in review''),
      llm_generateGoalBreakdowns = (\<lambda>main_goal timeline. []),
      llm_parseCheckin = (\<lambda>message. None),
      llm_generateDailyPlan = (\<lambda>checkin userName goalContext recentCheckIns. js ''Your plan''),
      llm_generateGeneralResponse = (\<lambda>message userName activeGoals. js ''Hello'')\<rparr>"

subsection \<open>Facts about the string operations\<close>

lemma trim_no_space:
  assumes "\<forall>c\<in>set s. \<not> isWhiteSpace c"
  shows "trim s = s"
proof -
  have a: "dropWhile isWhiteSpace s = s"
    using assms by (cases s) auto
  have "\<forall>c\<in>set (rev s). \<not> isWhiteSpace c"
    using assms by simp
  then have "dropWhile isWhiteSpace (rev s) = rev s"
    by (cases "rev s") auto
  with a show ?thesis
    by (simp add: trim_def)
qed

lemma stripWhiteSpace_no_space:
  "\<forall>c\<in>set s. \<not> isWhiteSpace c \<Longrightarrow> stripWhiteSpace s = s"
  by (induction s) (auto simp: stripWhiteSpace_def)

lemma stripWhiteSpace_set:
  "c \<in> set (stripWhiteSpace s) \<Longrightarrow> \<not> isWhiteSpace c"
  by (simp add: stripWhiteSpace_def)

lemma trim_stripWhiteSpace:
  "trim (stripWhiteSpace s) = stripWhiteSpace s"
  by (rule trim_no_space) (simp add: stripWhiteSpace_def)

lemma replaceFirst_absent:
  "\<not> includes_str s p \<Longrightarrow> replaceFirst s p r = s"
  by (induction s) (auto simp: startsWith_def)

lemma startsWith_length:
  assumes "startsWith s p"
  shows "length p \<le> length s"
proof -
  from assms have "take (length p) s = p"
    by (simp only: startsWith_def)
  then have "length (take (length p) s) = length p"
    by (rule arg_cong)
  then have "min (length s) (length p) = length p"
    by (simp only: length_take)
  then show ?thesis
    by arith
qed

lemma replaceFirst_present_length:
  "includes_str s p \<Longrightarrow> length (replaceFirst s p []) + length p = length s"
proof (induction s)
  case Nil
  then show ?case by simp
next
  case (Cons c cs)
  show ?case
  proof (cases "startsWith (c # cs) p")
    case True
    then show ?thesis
      using startsWith_length [OF True] by simp
  next
    case False
    with Cons show ?thesis by simp
  qed
qed

lemma set_replaceFirst_empty:
  "set (replaceFirst s p []) \<subseteq> set s"
proof (induction s)
  case Nil
  then show ?case by simp
next
  case (Cons c cs)
  then show ?case
    by (auto dest: in_set_dropD)
qed

lemma plus_not_space: "\<not> isWhiteSpace 43"
  by (simp add: isWhiteSpace_def)

lemma js_plus: "js ''+'' = [43]"
  by (simp add: js_def)

lemma normalizePhone_no_space:
  "c \<in> set (normalizePhone x) \<Longrightarrow> \<not> isWhiteSpace c"
  by (auto simp: normalizePhone_def Let_def trim_stripWhiteSpace js_plus plus_not_space
      dest: stripWhiteSpace_set split: if_splits)

lemma normalizePhone_plus:
  "startsWith (normalizePhone x) (js ''+'')"
  by (simp add: normalizePhone_def Let_def startsWith_def js_plus)

lemma length_js_whatsapp: "length (js ''whatsapp:'') = 9"
  by (simp add: js_def)

section \<open>Phone normalization: totality, leading plus, idempotence\<close>

text \<open>
  C3, as stated, at a concrete input: a doubled transport prefix.  The first pass removes
  one \<open>whatsapp:\<close> and prepends \<open>+\<close>, giving \<open>+whatsapp:+1\<close>; the second pass removes
  the other prefix, giving \<open>++1\<close>.  So normalizing a normalized value changes it.
\<close>

theorem normalizePhone_not_idempotent:
  "normalizePhone (js ''whatsapp:whatsapp:+1'') = js ''+whatsapp:+1'' \<and>
   normalizePhone (normalizePhone (js ''whatsapp:whatsapp:+1'')) = js ''++1'' \<and>
   normalizePhone (normalizePhone (js ''whatsapp:whatsapp:+1''))
     \<noteq> normalizePhone (js ''whatsapp:whatsapp:+1'')"
  by (simp add: normalizePhone_def js_def startsWith_def trim_def stripWhiteSpace_def
      isWhiteSpace_def)

text \<open>
  C3, amended: \<open>normalizePhone\<close> is a total function whose output always starts with
  \<open>+\<close>, and normalizing twice equals normalizing once exactly when the normalized value
  no longer contains the substring \<open>whatsapp:\<close> (only the first occurrence of the prefix
  is removed by one pass).
\<close>

theorem normalizePhone_idempotent_iff:
  "startsWith (normalizePhone x) (js ''+'') \<and>
   (normalizePhone (normalizePhone x) = normalizePhone x
      \<longleftrightarrow> \<not> includes_str (normalizePhone x) (js ''whatsapp:''))"
proof -
  let ?n = "normalizePhone x"
  let ?p = "js ''whatsapp:''"
  have ns: "\<forall>c\<in>set ?n. \<not> isWhiteSpace c"
    using normalizePhone_no_space by blast
  have plus: "startsWith ?n (js ''+'')"
    by (rule normalizePhone_plus)
  have absent: "normalizePhone ?n = ?n" if "\<not> includes_str ?n ?p"
  proof -
    have "replaceFirst ?n ?p [] = ?n"
      using that by (rule replaceFirst_absent)
    then have "trim (stripWhiteSpace (replaceFirst ?n ?p [])) = ?n"
      using ns by (simp add: stripWhiteSpace_no_space trim_no_space)
    then show ?thesis
      using plus by (subst normalizePhone_def) (simp add: Let_def)
  qed
  have present: "normalizePhone ?n \<noteq> ?n" if "includes_str ?n ?p"
  proof -
    let ?r = "replaceFirst ?n ?p []"
    have len: "length ?r + 9 = length ?n"
      using replaceFirst_present_length [OF that] by (simp add: length_js_whatsapp)
    have "\<forall>c\<in>set ?r. \<not> isWhiteSpace c"
      using ns set_replaceFirst_empty by blast
    then have "trim (stripWhiteSpace ?r) = ?r"
      by (simp add: stripWhiteSpace_no_space trim_no_space)
    then have "length (normalizePhone ?n) \<le> length ?r + 1"
      by (subst normalizePhone_def) (simp add: Let_def js_plus)
    with len have "length (normalizePhone ?n) < length ?n"
      by arith
    then show ?thesis
      by auto
  qed
  from plus absent present show ?thesis
    by blast
qed

theorem normalizePhone_idempotent_iff_witness:
  "normalizePhone (js ''whatsapp:+1 555 010 9999'') = js ''+15550109999'' \<and>
   \<not> includes_str (js ''+15550109999'') (js ''whatsapp:'') \<and>
   normalizePhone (js ''+15550109999'') = js ''+15550109999''"
proof -
  have n: "normalizePhone (js ''whatsapp:+1 555 010 9999'') = js ''+15550109999''"
    by (simp add: normalizePhone_def js_def startsWith_def trim_def stripWhiteSpace_def
        isWhiteSpace_def)
  have i: "\<not> includes_str (js ''+15550109999'') (js ''whatsapp:'')"
    by (simp add: js_def startsWith_def)
  show ?thesis
    using normalizePhone_idempotent_iff [of "js ''whatsapp:+1 555 010 9999''"] n i by simp
qed

section \<open>Message splitting: termination and chunk length\<close>

lemma length_trim_le: "length (trim s) \<le> length s"
proof -
  have "length (dropWhile isWhiteSpace (rev (dropWhile isWhiteSpace s)))
          \<le> length (rev (dropWhile isWhiteSpace s))"
    by (rule length_dropWhile_le)
  also have "\<dots> \<le> length s"
    by (simp add: length_dropWhile_le)
  finally show ?thesis
    by (simp add: trim_def)
qed

lemma lastIndexOf_bounds:
  "lastIndexOf s c n = - 1 \<or> (0 \<le> lastIndexOf s c n \<and> lastIndexOf s c n \<le> int n)"
proof (cases "filter (\<lambda>i. s ! i = c) (rev [0..<min (Suc n) (length s)])")
  case Nil
  then show ?thesis
    by (simp add: lastIndexOf_def)
next
  case (Cons i rest)
  then have "i \<in> set (filter (\<lambda>i. s ! i = c) (rev [0..<min (Suc n) (length s)]))"
    by simp
  then have "i \<le> n"
    by auto
  with Cons show ?thesis
    by (simp add: lastIndexOf_def)
qed

lemma lastIndexOf_absent: "c \<notin> set s \<Longrightarrow> lastIndexOf s c n = - 1"
proof -
  assume a: "c \<notin> set s"
  have "filter (\<lambda>i. s ! i = c) (rev [0..<min (Suc n) (length s)]) = []"
    using a by (auto simp: filter_empty_conv)
  then show ?thesis
    by (simp add: lastIndexOf_def)
qed

lemma splitIndex_le: "splitIndex r m \<le> m"
  using lastIndexOf_bounds [of r 32 m] by (auto simp: splitIndex_def Let_def)

lemma splitIndex_pos: "0 < m \<Longrightarrow> 0 < splitIndex r m"
  using lastIndexOf_bounds [of r 32 m] by (auto simp: splitIndex_def Let_def)

lemma splitIndex_no_space: "32 \<notin> set r \<Longrightarrow> splitIndex r m = m"
  by (simp add: splitIndex_def lastIndexOf_absent)

lemma splitLoop_shortens:
  assumes "0 < m" "m < length r"
  shows "length (trim (drop (splitIndex r m) r)) < length r"
proof -
  have "length (trim (drop (splitIndex r m) r)) \<le> length (drop (splitIndex r m) r)"
    by (rule length_trim_le)
  also have "\<dots> < length r"
    using splitIndex_pos [OF assms(1), of r] assms(2) by simp
  finally show ?thesis .
qed

text \<open>
  For a positive limit the loop ends, by induction on the length of the remaining text,
  and it keeps every part within the limit.
\<close>

lemma splitLoop_total:
  assumes "0 < m" "\<forall>p\<in>set parts. length p \<le> m"
  shows "\<exists>res. splitLoop m parts r = Some res \<and> (\<forall>p\<in>set res. length p \<le> m)"
  using assms(2)
proof (induction "length r" arbitrary: r parts rule: less_induct)
  case less
  show ?case
  proof (cases "length r \<le> m")
    case True
    then show ?thesis
      using less.prems by (subst splitLoop.simps) auto
  next
    case False
    let ?i = "splitIndex r m"
    let ?r = "trim (drop ?i r)"
    let ?parts = "parts @ [trim (take ?i r)]"
    have "length (trim (take ?i r)) \<le> m"
      using length_trim_le [of "take ?i r"] splitIndex_le [of r m] by simp
    then have p: "\<forall>p\<in>set ?parts. length p \<le> m"
      using less.prems by simp
    have "length ?r < length r"
      using splitLoop_shortens [OF assms(1)] False by simp
    from less.hyps [OF this p] obtain res where
      "splitLoop m ?parts ?r = Some res" "\<forall>p\<in>set res. length p \<le> m"
      by blast
    then show ?thesis
      using False by (subst splitLoop.simps) auto
  qed
qed

lemma a_not_space: "\<not> isWhiteSpace 97"
  by (simp add: isWhiteSpace_def)

lemma trim_replicate_a: "trim (replicate n 97) = replicate n 97"
  by (rule trim_no_space) (simp add: a_not_space)

lemma splitMessage_3200:
  "splitMessage (replicate 3200 97) 1600 = Some [replicate 1600 97, replicate 1600 97]"
proof -
  have i: "splitIndex (replicate 3200 97) 1600 = 1600"
    by (rule splitIndex_no_space) simp
  have "splitLoop 1600 [] (replicate 3200 97)
          = splitLoop 1600 [replicate 1600 97] (replicate 1600 97)"
    by (subst splitLoop.simps) (simp add: i trim_replicate_a)
  also have "\<dots> = Some [replicate 1600 97, replicate 1600 97]"
    by (subst splitLoop.simps) simp
  finally show ?thesis
    by (simp add: splitMessage_def)
qed

lemma decimal_digit: "n < 10 \<Longrightarrow> decimal n = [48 + of_nat n]"
  by (subst decimal.simps) simp

lemma partMessage_digits:
  "i < 10 \<Longrightarrow> n < 10 \<Longrightarrow>
   partMessage i n p = [91, 48 + of_nat i, 47, 48 + of_nat n, 93, 32] @ p"
  by (simp add: partMessage_def js_def decimal_digit)

text \<open>A message within the limit goes out as it is, in one piece.\<close>

lemma sendWhatsAppMessage_short:
  assumes "length message \<le> 1600"
  shows "sendWhatsAppMessage create number to message =
           (case create message number (js ''whatsapp:'' @ normalizePhone to) of
              None \<Rightarrow> Some ([], None)
            | Some sid \<Rightarrow> Some ([message], Some sid))"
  using assms
  by (simp add: sendWhatsAppMessage_def MAX_MESSAGE_LENGTH_def Let_def normalizePhone_def)

text \<open>
  C10: \<open>splitMessage\<close>, called with the limit 1600 as \<open>sendWhatsAppMessage\<close> does, returns
  for every message, and every part it returns has at most 1600 characters.  Whenever the
  loop body runs (the remaining text is longer than the limit), the split index is
  positive and the next remaining text is strictly shorter.
\<close>

theorem splitMessage_terminates_within_limit:
  "(\<exists>parts. splitMessage message MAX_MESSAGE_LENGTH = Some parts \<and>
            (\<forall>p\<in>set parts. length p \<le> MAX_MESSAGE_LENGTH)) \<and>
   (MAX_MESSAGE_LENGTH < length remaining \<longrightarrow>
      0 < splitIndex remaining MAX_MESSAGE_LENGTH \<and>
      length (trim (drop (splitIndex remaining MAX_MESSAGE_LENGTH) remaining)) < length remaining)"
proof -
  have pos: "0 < MAX_MESSAGE_LENGTH"
    by (simp add: MAX_MESSAGE_LENGTH_def)
  have "\<exists>res. splitLoop MAX_MESSAGE_LENGTH [] message = Some res \<and>
              (\<forall>p\<in>set res. length p \<le> MAX_MESSAGE_LENGTH)"
    by (rule splitLoop_total [OF pos]) simp
  then show ?thesis
    using splitIndex_pos [OF pos] splitLoop_shortens [OF pos]
    by (simp add: splitMessage_def)
qed

theorem splitMessage_terminates_within_limit_witness:
  "splitMessage (replicate 3200 97) MAX_MESSAGE_LENGTH
     = Some [replicate 1600 97, replicate 1600 97] \<and>
   length (replicate 1600 (97 :: jschar)) \<le> MAX_MESSAGE_LENGTH \<and>
   MAX_MESSAGE_LENGTH < length (replicate 3200 (97 :: jschar)) \<and>
   0 < splitIndex (replicate 3200 97) MAX_MESSAGE_LENGTH \<and>
   length (trim (drop (splitIndex (replicate 3200 97) MAX_MESSAGE_LENGTH) (replicate 3200 97)))
     < length (replicate 3200 (97 :: jschar))"
  using splitMessage_terminates_within_limit [of "replicate 3200 97" "replicate 3200 97"]
    splitMessage_3200
  by (simp add: MAX_MESSAGE_LENGTH_def)

text \<open>
  C2 at a text of 3200 letters \<open>a\<close>, every call to Twilio succeeding: the text is split in
  two parts of 1600 characters, and each is sent behind its marker, \<open>[1/2] \<close> and
  \<open>[2/2] \<close>, as a message of 1606 characters, above the limit of 1600 that the split is
  there to keep.
\<close>

theorem sendWhatsAppMessage_3200_exceeds_limit:
  "sendWhatsAppMessage (\<lambda>body from to. Some (js ''SM1'')) (js ''whatsapp:+14155238886'')
       (js ''whatsapp:+15550109999'') (replicate 3200 97)
     = Some ([js ''[1/2] '' @ replicate 1600 97, js ''[2/2] '' @ replicate 1600 97],
             Some (js ''SM1'')) \<and>
   length (js ''[1/2] '' @ replicate 1600 97 :: jsstring) = 1606 \<and>
   length (js ''[2/2] '' @ replicate 1600 97 :: jsstring) = 1606 \<and>
   MAX_MESSAGE_LENGTH = 1600"
proof -
  have "sendParts (\<lambda>body from to. Some (js ''SM1'')) w t
          (length [replicate 1600 97, replicate 1600 (97 :: jschar)]) 0
          [replicate 1600 97, replicate 1600 97] None []
      = ([js ''[1/2] '' @ replicate 1600 97, js ''[2/2] '' @ replicate 1600 97], Some (js ''SM1''))"
    for w t
    by (simp add: partMessage_digits) (simp add: js_def)
  then show ?thesis
    by (simp add: sendWhatsAppMessage_def MAX_MESSAGE_LENGTH_def splitMessage_3200 Let_def
        del: list.size) (simp add: js_def)
qed

text \<open>A message of 10 characters is handed to Twilio as it is, in one call.\<close>

lemma sendWhatsAppMessage_10:
  "sendWhatsAppMessage (\<lambda>body from to. Some (js ''SM1'')) (js ''whatsapp:+14155238886'')
       (js ''whatsapp:+15550109999'') (js ''0123456789'')
     = Some ([js ''0123456789''], Some (js ''SM1''))"
  by (subst sendWhatsAppMessage_short) (simp_all add: js_def)

section \<open>Goal declarations: the pipe form and the line-break form\<close>

subsection \<open>Greedy and lazy repetition\<close>

lemma canonicalize_pipe: "canonicalize 124 = canonicalize c \<longleftrightarrow> c = 124"
  unfolding canonicalize_def by (auto; unat_arith)

lemma canonicalize_lf: "canonicalize 10 = canonicalize c \<longleftrightarrow> c = 10"
  unfolding canonicalize_def by (auto; unat_arith)

lemma starGreedy_all:
  "\<forall>c\<in>set ws. P c \<Longrightarrow> s = [] \<or> \<not> P (hd s) \<Longrightarrow> k (e + length ws) s caps = Some r
   \<Longrightarrow> starGreedy P k e (ws @ s) caps = Some r"
proof (induction ws arbitrary: e)
  case Nil
  then show ?case by (cases s) auto
next
  case (Cons a ws)
  from Cons.prems have "starGreedy P k (Suc e) (ws @ s) caps = Some r"
    by (intro Cons.IH) auto
  with Cons.prems show ?case by simp
qed

lemma starGreedy_one_none:
  "\<forall>c\<in>set ws. \<not> Q c \<Longrightarrow> \<not> P x \<Longrightarrow> \<not> Q x
   \<Longrightarrow> starGreedy P (one Q k) e (ws @ x # rest) caps = None"
  by (induction ws arbitrary: e) (auto simp: one_def)

lemma starLazy_first:
  "\<forall>c\<in>set u. P c \<Longrightarrow>
   \<forall>u1 u2. u = u1 @ u2 \<and> u2 \<noteq> [] \<longrightarrow> k (e + length u1) (u2 @ v) caps = None \<Longrightarrow>
   k (e + length u) v caps = Some r
   \<Longrightarrow> starLazy P k e (u @ v) caps = Some r"
proof (induction u arbitrary: e)
  case Nil
  then show ?case by (cases v) auto
next
  case (Cons a u)
  have none: "k e (a # u @ v) caps = None"
    using Cons.prems(2) [rule_format, of "[]" "a # u"] by simp
  have "starLazy P k (Suc e) (u @ v) caps = Some r"
  proof (rule Cons.IH)
    show "\<forall>c\<in>set u. P c" using Cons.prems(1) by simp
    show "\<forall>u1 u2. u = u1 @ u2 \<and> u2 \<noteq> [] \<longrightarrow> k (Suc e + length u1) (u2 @ v) caps = None"
    proof (intro allI impI)
      fix u1 u2 assume "u = u1 @ u2 \<and> u2 \<noteq> []"
      then show "k (Suc e + length u1) (u2 @ v) caps = None"
        using Cons.prems(2) [rule_format, of "a # u1" u2] by simp
    qed
    show "k (Suc e + length u) v caps = Some r" using Cons.prems(3) by simp
  qed
  with none Cons.prems(1) show ?case by simp
qed


subsection \<open>White space around a field\<close>

text \<open>A text that is not blank is its trimmed core between two runs of white space.\<close>

lemma trim_decomp:
  assumes "trim F \<noteq> []"
  obtains l t r where "F = l @ t @ r" "\<forall>c\<in>set l. isWhiteSpace c" "\<forall>c\<in>set r. isWhiteSpace c"
    "t \<noteq> []" "\<not> isWhiteSpace (hd t)" "\<not> isWhiteSpace (last t)" "trim F = t"
    "dropWhile isWhiteSpace F = t @ r"
proof -
  let ?l = "takeWhile isWhiteSpace F"
  let ?F' = "dropWhile isWhiteSpace F"
  let ?r = "rev (takeWhile isWhiteSpace (rev ?F'))"
  have d: "dropWhile isWhiteSpace (rev ?F') \<noteq> []"
    using assms by (simp add: trim_def)
  have F': "?F' = trim F @ ?r"
  proof -
    have "rev (takeWhile isWhiteSpace (rev ?F') @ dropWhile isWhiteSpace (rev ?F')) = rev (rev ?F')"
      by (simp only: takeWhile_dropWhile_id)
    then have "rev (dropWhile isWhiteSpace (rev ?F')) @ rev (takeWhile isWhiteSpace (rev ?F')) = ?F'"
      by (simp only: rev_append rev_rev_ident)
    then show ?thesis
      unfolding trim_def by (rule sym)
  qed
  have 1: "F = ?l @ trim F @ ?r"
    using F' takeWhile_dropWhile_id [of isWhiteSpace F] by simp
  have 2: "\<forall>c\<in>set ?l. isWhiteSpace c"
    by (auto dest: set_takeWhileD)
  have 3: "\<forall>c\<in>set ?r. isWhiteSpace c"
    by (auto dest: set_takeWhileD)
  have "?F' \<noteq> []"
    using d by (auto dest: set_dropWhileD)
  then have "\<not> isWhiteSpace (hd ?F')"
    by (rule hd_dropWhile)
  moreover have "hd ?F' = hd (trim F)"
    using assms by (subst F') simp
  ultimately have 5: "\<not> isWhiteSpace (hd (trim F))"
    by simp
  have "\<not> isWhiteSpace (hd (dropWhile isWhiteSpace (rev ?F')))"
    using d by (rule hd_dropWhile)
  then have 6: "\<not> isWhiteSpace (last (trim F))"
    using d by (simp add: trim_def last_rev)
  show thesis
    using that [OF 1 2 3 assms 5 6 refl F'] .
qed

lemma trim_core:
  assumes "\<forall>c\<in>set l. isWhiteSpace c" "\<forall>c\<in>set r. isWhiteSpace c"
    "t \<noteq> []" "\<not> isWhiteSpace (hd t)" "\<not> isWhiteSpace (last t)"
  shows "trim (l @ t @ r) = t"
proof -
  obtain a t' where t: "t = a # t'"
    using assms(3) by (cases t) auto
  have 1: "dropWhile isWhiteSpace (l @ t @ r) = t @ r"
    using assms(1,4) t by (simp add: dropWhile_append3)
  have "rev t \<noteq> []" "hd (rev t) = last t"
    using assms(3) by (simp_all add: hd_rev)
  then obtain b u where u: "rev t = b # u" "\<not> isWhiteSpace b"
    using assms(5) by (cases "rev t") auto
  have "dropWhile isWhiteSpace (rev r @ rev t) = dropWhile isWhiteSpace (rev t)"
    by (rule dropWhile_append2) (use assms(2) in auto)
  also have "\<dots> = rev t"
    using u by simp
  finally show ?thesis
    using 1 by (simp add: trim_def)
qed

lemma trim_dropWhile: "trim (dropWhile isWhiteSpace s) = trim s"
  by (simp add: trim_def dropWhile_idem)

subsection \<open>The separator between two fields\<close>

text \<open>
  Inside a field that holds no pipe and no line break the separator does not match; it
  matches at the pipe behind the field, or at the line break.
\<close>

lemma separator_none:
  assumes "u \<noteq> []" "\<not> isWhiteSpace (last u)" "124 \<notin> set u" "10 \<notin> set u"
  shows "matcher goalFlags goalSeparator K e (u @ v) caps = None"
proof -
  have u: "u = butlast u @ [last u]"
    using assms(1) by simp
  have "\<forall>c\<in>set (butlast u). \<not> atomMatches goalFlags (Chr 124) c"
    using assms(3) by (auto simp: goalFlags_def canonicalize_pipe dest: in_set_butlastD)
  moreover have "\<not> atomMatches goalFlags Space (last u)"
    using assms(2) by simp
  moreover have "\<not> atomMatches goalFlags (Chr 124) (last u)"
    using assms(3) last_in_set [OF assms(1)] by (auto simp: goalFlags_def canonicalize_pipe)
  ultimately have "starGreedy (atomMatches goalFlags Space) (one (atomMatches goalFlags (Chr 124)) K) e
      (butlast u @ last u # v) caps = None"
    by (rule starGreedy_one_none)
  then have 1: "starGreedy (atomMatches goalFlags Space) (one (atomMatches goalFlags (Chr 124)) K) e
      (u @ v) caps = None"
    using u by (metis append.assoc append_Cons append_Nil)
  obtain a u' where "u = a # u'"
    using assms(1) by (cases u) auto
  with assms(4) have 2: "one (atomMatches goalFlags (Chr 10)) K e (u @ v) caps = None"
    by (auto simp: one_def goalFlags_def canonicalize_lf)
  from 1 2 assms(1) show ?thesis
    by (simp add: goalSeparator_def)
qed

lemma separator_pipe:
  assumes "\<forall>c\<in>set r. isWhiteSpace c" "K (e + length r + 2) T caps = Some res"
  shows "matcher goalFlags goalSeparator K e (r @ 32 # 124 # T) caps = Some res"
proof -
  have "starGreedy (atomMatches goalFlags Space) (one (atomMatches goalFlags (Chr 124)) K) e
      ((r @ [32]) @ 124 # T) caps = Some res"
  proof (rule starGreedy_all)
    show "\<forall>c\<in>set (r @ [32]). atomMatches goalFlags Space c"
      using assms(1) by (simp add: isWhiteSpace_def)
    show "124 # T = [] \<or> \<not> atomMatches goalFlags Space (hd (124 # T))"
      by (simp add: isWhiteSpace_def)
    show "one (atomMatches goalFlags (Chr 124)) K (e + length (r @ [32])) (124 # T) caps = Some res"
      using assms(2) by (simp add: one_def)
  qed
  then show ?thesis
    by (simp add: goalSeparator_def)
qed

lemma separator_newline:
  assumes "\<forall>c\<in>set r. isWhiteSpace c" "124 \<notin> set u" "10 \<notin> set u" "\<not> isWhiteSpace c" "c \<noteq> 124"
  shows "matcher goalFlags goalSeparator K e (u @ 10 # c # T) caps
           = (if u = [] then K (Suc e) (c # T) caps else None)"
proof -
  have "\<forall>c\<in>set (u @ [10]). \<not> atomMatches goalFlags (Chr 124) c"
    using assms(2) by (auto simp: goalFlags_def canonicalize_pipe)
  moreover have "\<not> atomMatches goalFlags Space c"
    using assms(4) by simp
  moreover have "\<not> atomMatches goalFlags (Chr 124) c"
    using assms(5) by (auto simp: goalFlags_def canonicalize_pipe)
  ultimately have "starGreedy (atomMatches goalFlags Space) (one (atomMatches goalFlags (Chr 124)) K) e
      ((u @ [10]) @ c # T) caps = None"
    by (rule starGreedy_one_none)
  then have 1: "starGreedy (atomMatches goalFlags Space) (one (atomMatches goalFlags (Chr 124)) K) e
      (u @ 10 # c # T) caps = None"
    by simp
  show ?thesis
  proof (cases u)
    case Nil
    with 1 show ?thesis
      by (simp add: goalSeparator_def one_def goalFlags_def canonicalize_def split: option.splits)
  next
    case (Cons a u')
    with assms(3) have "one (atomMatches goalFlags (Chr 10)) K e (u @ 10 # c # T) caps = None"
      by (auto simp: one_def goalFlags_def canonicalize_lf)
    with 1 Cons show ?thesis
      by (simp add: goalSeparator_def)
  qed
qed


subsection \<open>A field and its separator\<close>

lemma goal_field_pipe:
  assumes F: "trim F \<noteq> []" "124 \<notin> set F" "10 \<notin> set F"
    and ws: "\<forall>c\<in>set ws. isWhiteSpace c"
    and K: "\<And>e'. K e' T (caps(n \<mapsto> trim F)) = Some res"
  shows "matcher goalFlags (Star Space)
           (matcher goalFlags (Group n (PlusLazy Dot)) (matcher goalFlags goalSeparator K))
           e (ws @ F @ 32 # 124 # T) caps = Some res"
proof -
  obtain l t r where d: "F = l @ t @ r" "\<forall>c\<in>set l. isWhiteSpace c" "\<forall>c\<in>set r. isWhiteSpace c"
    "t \<noteq> []" "\<not> isWhiteSpace (hd t)" "\<not> isWhiteSpace (last t)" "trim F = t"
    "dropWhile isWhiteSpace F = t @ r"
    by (rule trim_decomp [OF F(1)])
  obtain t0 t' where t: "t = t0 # t'"
    using d(4) by (cases t) auto
  let ?v = "r @ 32 # 124 # T"
  let ?e1 = "e + length (ws @ l)"
  let ?G = "matcher goalFlags (Group n (PlusLazy Dot)) (matcher goalFlags goalSeparator K)"
  let ?K' = "\<lambda>e' s' caps'. matcher goalFlags goalSeparator K e' s'
                (caps'(n \<mapsto> take (e' - ?e1) (t @ ?v)))"
  have lazy: "starLazy (atomMatches goalFlags Dot) ?K' (Suc ?e1) (t' @ ?v) caps = Some res"
  proof (rule starLazy_first [where u = t' and v = ?v])
    show "\<forall>c\<in>set t'. atomMatches goalFlags Dot c"
      by (simp add: goalFlags_def)
    show "\<forall>u1 u2. t' = u1 @ u2 \<and> u2 \<noteq> [] \<longrightarrow> ?K' (Suc ?e1 + length u1) (u2 @ ?v) caps = None"
    proof (intro allI impI)
      fix u1 u2 assume a: "t' = u1 @ u2 \<and> u2 \<noteq> []"
      then have "last u2 = last t"
        using t by simp
      moreover have "set u2 \<subseteq> set F"
        using a t d(1) by auto
      ultimately show "?K' (Suc ?e1 + length u1) (u2 @ ?v) caps = None"
        using a d(6) F(2,3) by (intro separator_none) auto
    qed
    have "K e' T (caps(n \<mapsto> t)) = Some res" for e'
      using K [of e'] d(7) by simp
    then show "?K' (Suc ?e1 + length t') ?v caps = Some res"
      using d(3) by (simp add: t separator_pipe)
  qed
  have "?G ?e1 (t @ ?v) caps = Some res"
    using lazy by (simp add: t one_def goalFlags_def)
  then have "starGreedy (atomMatches goalFlags Space) ?G e ((ws @ l) @ t @ ?v) caps = Some res"
    by (intro starGreedy_all) (use ws d(2,4,5) in auto)
  then show ?thesis
    using d(1) by simp
qed

lemma goal_field_newline:
  assumes F: "trim F \<noteq> []" "124 \<notin> set F" "10 \<notin> set F"
    and ws: "\<forall>c\<in>set ws. isWhiteSpace c"
    and c: "\<not> isWhiteSpace c" "c \<noteq> 124"
    and K: "\<And>e'. K e' (c # T) (caps(n \<mapsto> dropWhile isWhiteSpace F)) = Some res"
  shows "matcher goalFlags (Star Space)
           (matcher goalFlags (Group n (PlusLazy Dot)) (matcher goalFlags goalSeparator K))
           e (ws @ F @ 10 # c # T) caps = Some res"
proof -
  obtain l t r where d: "F = l @ t @ r" "\<forall>c\<in>set l. isWhiteSpace c" "\<forall>c\<in>set r. isWhiteSpace c"
    "t \<noteq> []" "\<not> isWhiteSpace (hd t)" "\<not> isWhiteSpace (last t)" "trim F = t"
    "dropWhile isWhiteSpace F = t @ r"
    by (rule trim_decomp [OF F(1)])
  obtain t0 t' where t: "t = t0 # t'"
    using d(4) by (cases t) auto
  let ?v = "10 # c # T"
  let ?e1 = "e + length (ws @ l)"
  let ?G = "matcher goalFlags (Group n (PlusLazy Dot)) (matcher goalFlags goalSeparator K)"
  let ?K' = "\<lambda>e' s' caps'. matcher goalFlags goalSeparator K e' s'
                (caps'(n \<mapsto> take (e' - ?e1) ((t @ r) @ ?v)))"
  have lazy: "starLazy (atomMatches goalFlags Dot) ?K' (Suc ?e1) ((t' @ r) @ ?v) caps = Some res"
  proof (rule starLazy_first [where u = "t' @ r" and v = ?v])
    show "\<forall>c\<in>set (t' @ r). atomMatches goalFlags Dot c"
      by (simp add: goalFlags_def)
    show "\<forall>u1 u2. t' @ r = u1 @ u2 \<and> u2 \<noteq> [] \<longrightarrow> ?K' (Suc ?e1 + length u1) (u2 @ ?v) caps = None"
    proof (intro allI impI)
      fix u1 u2 assume a: "t' @ r = u1 @ u2 \<and> u2 \<noteq> []"
      then have "set u2 \<subseteq> set (t' @ r)"
        by (metis set_append sup_ge2)
      then have "set u2 \<subseteq> set F"
        using t d(1) by auto
      then have "124 \<notin> set u2" "10 \<notin> set u2"
        using F(2,3) by auto
      then show "?K' (Suc ?e1 + length u1) (u2 @ ?v) caps = None"
        using a c by (simp add: separator_newline [where r = "[]"])
    qed
    have "K e' (c # T) (caps(n \<mapsto> t @ r)) = Some res" for e'
      using K [of e'] d(8) by simp
    then show "?K' (Suc ?e1 + length (t' @ r)) ?v caps = Some res"
      using c separator_newline [where r = "[]" and u = "[]" and c = c] by (simp add: t)
  qed
  have "?G ?e1 ((t @ r) @ ?v) caps = Some res"
    using lazy by (simp add: t one_def goalFlags_def)
  then have "starGreedy (atomMatches goalFlags Space) ?G e ((ws @ l) @ (t @ r) @ ?v) caps = Some res"
    by (intro starGreedy_all) (use ws d(2,4,5) in auto)
  then show ?thesis
    using d(1) by simp
qed

lemma goal_timeline:
  assumes "trim Z \<noteq> []" "\<forall>c\<in>set ws. isWhiteSpace c"
  shows "matcher goalFlags (Star Space) (matcher goalFlags (Group 3 (Plus Dot)) accept)
           e (ws @ Z) caps = Some (caps(3 \<mapsto> dropWhile isWhiteSpace Z))"
proof -
  obtain l t r where d: "Z = l @ t @ r" "\<forall>c\<in>set l. isWhiteSpace c" "\<forall>c\<in>set r. isWhiteSpace c"
    "t \<noteq> []" "\<not> isWhiteSpace (hd t)" "\<not> isWhiteSpace (last t)" "trim Z = t"
    "dropWhile isWhiteSpace Z = t @ r"
    by (rule trim_decomp [OF assms(1)])
  obtain t0 t' where t: "t = t0 # t'"
    using d(4) by (cases t) auto
  let ?e1 = "e + length (ws @ l)"
  let ?G = "matcher goalFlags (Group 3 (Plus Dot)) accept"
  let ?K' = "\<lambda>e' s' caps'. accept e' s' (caps'(3 \<mapsto> take (e' - ?e1) (t @ r)))"
  have "starGreedy (atomMatches goalFlags Dot) ?K' (Suc ?e1) ((t' @ r) @ []) caps
          = Some (caps(3 \<mapsto> t @ r))"
    by (rule starGreedy_all) (simp_all add: goalFlags_def accept_def t)
  then have "?G ?e1 (t @ r) caps = Some (caps(3 \<mapsto> t @ r))"
    by (simp add: t one_def goalFlags_def)
  then have "starGreedy (atomMatches goalFlags Space) ?G e ((ws @ l) @ t @ r) caps
          = Some (caps(3 \<mapsto> t @ r))"
    by (intro starGreedy_all) (use assms(2) d(2,4,5) in auto)
  then show ?thesis
    using d(1,8) by simp
qed

subsection \<open>The labels and the whole pattern\<close>

lemmas label_simps = lit_def js_def one_def goalFlags_def canonicalize_def isWhiteSpace_def

lemma goal_label:
  assumes "\<And>e'. K e' S caps = Some res"
  shows "matcher goalFlags (lit ''Goal'') (matcher goalFlags (Star Space) (matcher goalFlags (lit '':'') K))
     e (js ''Goal:'' @ S) caps = Some res"
  by (simp add: label_simps assms)

lemma reason_label:
  assumes "\<And>e'. K e' S caps = Some res"
  shows "matcher goalFlags (Star Space) (matcher goalFlags (lit ''Reason'')
     (matcher goalFlags (Star Space) (matcher goalFlags (lit '':'') K)))
     e (js '' Reason:'' @ S) caps = Some res"
  and "matcher goalFlags (Star Space) (matcher goalFlags (lit ''Reason'')
     (matcher goalFlags (Star Space) (matcher goalFlags (lit '':'') K)))
     e (js ''Reason:'' @ S) caps = Some res"
  by (simp_all add: label_simps assms)

lemma timeline_label:
  assumes "\<And>e'. K e' S caps = Some res"
  shows "matcher goalFlags (Star Space) (matcher goalFlags (lit ''Timeline'')
     (matcher goalFlags (Star Space) (matcher goalFlags (lit '':'') K)))
     e (js '' Timeline:'' @ S) caps = Some res"
  and "matcher goalFlags (Star Space) (matcher goalFlags (lit ''Timeline'')
     (matcher goalFlags (Star Space) (matcher goalFlags (lit '':'') K)))
     e (js ''Timeline:'' @ S) caps = Some res"
  by (simp_all add: label_simps assms)

lemma space_32: "\<forall>c\<in>set [32]. isWhiteSpace c"
  by (simp add: isWhiteSpace_def)

lemma exec_at_start:
  "matcher fl r accept 0 s Map.empty = Some m \<Longrightarrow> exec fl r s = Some m"
  by (cases s) (simp_all add: exec_def)

text \<open>The pipe form: group 1 and 2 stop before the white space in front of the pipe.\<close>

lemma goalPattern_pipe:
  assumes X: "trim X \<noteq> []" "124 \<notin> set X" "10 \<notin> set X"
    and Y: "trim Y \<noteq> []" "124 \<notin> set Y" "10 \<notin> set Y"
    and Z: "trim Z \<noteq> []"
  shows "exec goalFlags goalPattern (pipeForm X Y Z)
           = Some [1 \<mapsto> trim X, 2 \<mapsto> trim Y, 3 \<mapsto> dropWhile isWhiteSpace Z]"
proof -
  let ?G3 = "matcher goalFlags (Star Space) (matcher goalFlags (Group 3 (Plus Dot)) accept)"
  let ?K3 = "matcher goalFlags (Star Space) (matcher goalFlags (lit ''Timeline'')
     (matcher goalFlags (Star Space) (matcher goalFlags (lit '':'') ?G3)))"
  let ?T3 = "js '' Timeline:'' @ [32] @ Z"
  let ?G2 = "matcher goalFlags (Star Space)
           (matcher goalFlags (Group 2 (PlusLazy Dot)) (matcher goalFlags goalSeparator ?K3))"
  let ?K2 = "matcher goalFlags (Star Space) (matcher goalFlags (lit ''Reason'')
     (matcher goalFlags (Star Space) (matcher goalFlags (lit '':'') ?G2)))"
  let ?T2 = "js '' Reason:'' @ [32] @ Y @ 32 # 124 # ?T3"
  let ?G1 = "matcher goalFlags (Star Space)
           (matcher goalFlags (Group 1 (PlusLazy Dot)) (matcher goalFlags goalSeparator ?K2))"
  have pat: "matcher goalFlags goalPattern accept
     = matcher goalFlags (lit ''Goal'') (matcher goalFlags (Star Space) (matcher goalFlags (lit '':'') ?G1))"
    by (simp only: goalPattern_def seqs.simps matcher.simps(2))
  have inp: "pipeForm X Y Z = js ''Goal:'' @ [32] @ X @ 32 # 124 # ?T2"
    by (simp add: pipeForm_def js_def)
  have g3: "?G3 e ([32] @ Z) caps = Some (caps(3 \<mapsto> dropWhile isWhiteSpace Z))" for e caps
    using Z space_32 by (rule goal_timeline)
  have k3: "?K3 e ?T3 caps = Some (caps(3 \<mapsto> dropWhile isWhiteSpace Z))" for e caps
    by (rule timeline_label(1)) (rule g3)
  have g2: "?G2 e ([32] @ Y @ 32 # 124 # ?T3) caps
              = Some (caps(2 \<mapsto> trim Y, 3 \<mapsto> dropWhile isWhiteSpace Z))" for e caps
    using Y space_32 by (rule goal_field_pipe) (rule k3)
  have k2: "?K2 e ?T2 caps = Some (caps(2 \<mapsto> trim Y, 3 \<mapsto> dropWhile isWhiteSpace Z))" for e caps
    by (rule reason_label(1)) (rule g2)
  have g1: "?G1 e ([32] @ X @ 32 # 124 # ?T2) Map.empty
          = Some [1 \<mapsto> trim X, 2 \<mapsto> trim Y, 3 \<mapsto> dropWhile isWhiteSpace Z]" for e
    using X space_32 by (rule goal_field_pipe) (rule k2)
  have "matcher goalFlags goalPattern accept 0 (pipeForm X Y Z) Map.empty
          = Some [1 \<mapsto> trim X, 2 \<mapsto> trim Y, 3 \<mapsto> dropWhile isWhiteSpace Z]"
    unfolding pat inp by (rule goal_label) (rule g1)
  then show ?thesis
    by (rule exec_at_start)
qed


text \<open>
  The line-break form: \<open>\s*\|\<close> finds no pipe, so group 1 and 2 run up to the line
  break and keep the white space before it.
\<close>

lemma goalPattern_newline:
  assumes X: "trim X \<noteq> []" "124 \<notin> set X" "10 \<notin> set X"
    and Y: "trim Y \<noteq> []" "124 \<notin> set Y" "10 \<notin> set Y"
    and Z: "trim Z \<noteq> []"
  shows "exec goalFlags goalPattern (newlineForm X Y Z)
           = Some [1 \<mapsto> dropWhile isWhiteSpace X, 2 \<mapsto> dropWhile isWhiteSpace Y,
                   3 \<mapsto> dropWhile isWhiteSpace Z]"
proof -
  let ?G3 = "matcher goalFlags (Star Space) (matcher goalFlags (Group 3 (Plus Dot)) accept)"
  let ?K3 = "matcher goalFlags (Star Space) (matcher goalFlags (lit ''Timeline'')
     (matcher goalFlags (Star Space) (matcher goalFlags (lit '':'') ?G3)))"
  let ?T3 = "js ''imeline:'' @ [32] @ Z"
  let ?G2 = "matcher goalFlags (Star Space)
           (matcher goalFlags (Group 2 (PlusLazy Dot)) (matcher goalFlags goalSeparator ?K3))"
  let ?K2 = "matcher goalFlags (Star Space) (matcher goalFlags (lit ''Reason'')
     (matcher goalFlags (Star Space) (matcher goalFlags (lit '':'') ?G2)))"
  let ?T2 = "js ''eason:'' @ [32] @ Y @ 10 # 84 # ?T3"
  let ?G1 = "matcher goalFlags (Star Space)
           (matcher goalFlags (Group 1 (PlusLazy Dot)) (matcher goalFlags goalSeparator ?K2))"
  have pat: "matcher goalFlags goalPattern accept
     = matcher goalFlags (lit ''Goal'') (matcher goalFlags (Star Space) (matcher goalFlags (lit '':'') ?G1))"
    by (simp only: goalPattern_def seqs.simps matcher.simps(2))
  have inp: "newlineForm X Y Z = js ''Goal:'' @ [32] @ X @ 10 # 82 # ?T2"
    by (simp add: newlineForm_def js_def)
  have t3: "84 # ?T3 = js ''Timeline:'' @ [32] @ Z"
    by (simp add: js_def)
  have t2: "82 # ?T2 = js ''Reason:'' @ [32] @ Y @ 10 # 84 # ?T3"
    by (simp add: js_def)
  have R: "\<not> isWhiteSpace 82" "(82 :: jschar) \<noteq> 124" and T: "\<not> isWhiteSpace 84" "(84 :: jschar) \<noteq> 124"
    by (simp_all add: isWhiteSpace_def)
  have g3: "?G3 e ([32] @ Z) caps = Some (caps(3 \<mapsto> dropWhile isWhiteSpace Z))" for e caps
    using Z space_32 by (rule goal_timeline)
  have k3: "?K3 e (84 # ?T3) caps = Some (caps(3 \<mapsto> dropWhile isWhiteSpace Z))" for e caps
    unfolding t3 by (rule timeline_label(2)) (rule g3)
  have g2: "?G2 e ([32] @ Y @ 10 # 84 # ?T3) caps
              = Some (caps(2 \<mapsto> dropWhile isWhiteSpace Y, 3 \<mapsto> dropWhile isWhiteSpace Z))"
    for e caps
    using Y space_32 T by (rule goal_field_newline) (rule k3)
  have k2: "?K2 e (82 # ?T2) caps
              = Some (caps(2 \<mapsto> dropWhile isWhiteSpace Y, 3 \<mapsto> dropWhile isWhiteSpace Z))"
    for e caps
    unfolding t2 by (rule reason_label(2)) (rule g2)
  have g1: "?G1 e ([32] @ X @ 10 # 82 # ?T2) Map.empty
          = Some [1 \<mapsto> dropWhile isWhiteSpace X, 2 \<mapsto> dropWhile isWhiteSpace Y,
                  3 \<mapsto> dropWhile isWhiteSpace Z]" for e
    using X space_32 R by (rule goal_field_newline) (rule k2)
  have "matcher goalFlags goalPattern accept 0 (newlineForm X Y Z) Map.empty
          = Some [1 \<mapsto> dropWhile isWhiteSpace X, 2 \<mapsto> dropWhile isWhiteSpace Y,
                  3 \<mapsto> dropWhile isWhiteSpace Z]"
    unfolding pat inp by (rule goal_label) (rule g1)
  then show ?thesis
    by (rule exec_at_start)
qed

lemma trim_trim: "trim (trim s) = trim s"
proof (cases "trim s = []")
  case True
  have "trim [] = []"
    by (simp add: trim_def)
  then show ?thesis
    by (simp only: True)
next
  case False
  then obtain l t r where "\<not> isWhiteSpace (hd t)" "\<not> isWhiteSpace (last t)" "t \<noteq> []" "trim s = t"
    by (rule trim_decomp)
  then show ?thesis
    using trim_core [of "[]" "[]" t] by simp
qed

text \<open>
  C7: for a goal text \<open>X\<close> and a reason \<open>Y\<close> that are not blank and hold no pipe and no
  line break, and a timeline \<open>Z\<close> that is not blank, the pattern matches the declaration
  written with pipes and the one written with line breaks, and the handler reads the same
  three fields from both: \<open>X\<close>, \<open>Y\<close> and \<open>Z\<close>, trimmed.
\<close>

theorem goal_declaration_forms_agree:
  assumes "trim X \<noteq> []" "124 \<notin> set X" "10 \<notin> set X"
    and "trim Y \<noteq> []" "124 \<notin> set Y" "10 \<notin> set Y"
    and "trim Z \<noteq> []"
  shows "Option.bind (exec goalFlags goalPattern (pipeForm X Y Z)) goalFields
           = Some (trim X, trim Y, trim Z) \<and>
         Option.bind (exec goalFlags goalPattern (newlineForm X Y Z)) goalFields
           = Some (trim X, trim Y, trim Z)"
  using goalPattern_pipe [OF assms] goalPattern_newline [OF assms]
  by (simp add: goalFields_def trim_trim trim_dropWhile)

theorem goal_declaration_forms_agree_witness:
  "Option.bind (exec goalFlags goalPattern
      (js ''Goal: Run a 5k | Reason: Get healthier | Timeline: 3 months'')) goalFields
     = Some (js ''Run a 5k'', js ''Get healthier'', js ''3 months'') \<and>
   Option.bind (exec goalFlags goalPattern
      (js ''Goal: Run a 5k'' @ 10 # js ''Reason: Get healthier'' @ 10 # js ''Timeline: 3 months''))
      goalFields
     = Some (js ''Run a 5k'', js ''Get healthier'', js ''3 months'')"
proof -
  have t: "trim (js ''Run a 5k'') = js ''Run a 5k''" "trim (js ''Get healthier'') = js ''Get healthier''"
    "trim (js ''3 months'') = js ''3 months''"
    by (simp_all add: trim_def js_def isWhiteSpace_def)
  have n: "124 \<notin> set (js ''Run a 5k'')" "10 \<notin> set (js ''Run a 5k'')"
    "124 \<notin> set (js ''Get healthier'')" "10 \<notin> set (js ''Get healthier'')"
    by (simp_all add: js_def)
  have e: "js ''Run a 5k'' \<noteq> []" "js ''Get healthier'' \<noteq> []" "js ''3 months'' \<noteq> []"
    by (simp_all add: js_def)
  have p: "pipeForm (js ''Run a 5k'') (js ''Get healthier'') (js ''3 months'')
             = js ''Goal: Run a 5k | Reason: Get healthier | Timeline: 3 months''"
    by (simp add: pipeForm_def js_def)
  have l: "newlineForm (js ''Run a 5k'') (js ''Get healthier'') (js ''3 months'')
             = js ''Goal: Run a 5k'' @ 10 # js ''Reason: Get healthier'' @ 10 # js ''Timeline: 3 months''"
    by (simp add: newlineForm_def js_def)
  show ?thesis
    using goal_declaration_forms_agree
      [of "js ''Run a 5k''" "js ''Get healthier''" "js ''3 months''"] t n e
    unfolding p l by simp
qed

section \<open>The strict check-in pattern\<close>

lemmas checkin_simps = exec_def checkinPattern_def checkinFlags_def lit_def js_def one_def
  canonicalize_def isWhiteSpace_def isDigit_def isLineTerminator_def accept_def

lemma checkin_example_match:
  "exec checkinFlags checkinPattern
     (js ''Sleep 7h | Mood 8 | Energy 6 | Notes: Feeling good today'')
   = Some [1 \<mapsto> js ''7'', 2 \<mapsto> js ''8'', 3 \<mapsto> js ''6'', 4 \<mapsto> js ''Feeling good today'']"
  by (simp add: checkin_simps)

lemma checkin_example:
  "parseMorningCheckin (js ''Sleep 7h | Mood 8 | Energy 6 | Notes: Feeling good today'')
     = Some (emptyCheckin
         \<lparr>sleep_hours := Some 7, current_mood := Some (js ''8''),
          current_energy_level := Some (js ''6''),
          c_notes := Some (js ''Feeling good today'')\<rparr>)"
  unfolding parseMorningCheckin_def checkin_example_match
  by (simp add: js_def parseFloat_def parseInt_def digitValue_def isDigit_def decimal_digit
      trim_def isWhiteSpace_def)

text \<open>
  C8: the strict parser reads the example as sleep 7, mood \<open>8\<close>, energy \<open>6\<close> and the
  notes \<open>Feeling good today\<close>; the handler takes this record whatever the language model
  would answer (\<open>env\<close> is arbitrary), so the model is not asked; and a message that the
  pattern does not match gives \<open>null\<close>.
\<close>

theorem parseMorningCheckin_strict:
  "parseMorningCheckin (js ''Sleep 7h | Mood 8 | Energy 6 | Notes: Feeling good today'')
     = Some (emptyCheckin
         \<lparr>sleep_hours := Some 7, current_mood := Some (js ''8''),
          current_energy_level := Some (js ''6''),
          c_notes := Some (js ''Feeling good today'')\<rparr>) \<and>
   resolveCheckin env (js ''Sleep 7h | Mood 8 | Energy 6 | Notes: Feeling good today'')
     = parseMorningCheckin (js ''Sleep 7h | Mood 8 | Energy 6 | Notes: Feeling good today'') \<and>
   (exec checkinFlags checkinPattern message = None \<longrightarrow> parseMorningCheckin message = None)"
  by (simp add: checkin_example resolveCheckin_def parseMorningCheckin_def [of message])

theorem parseMorningCheckin_strict_witness:
  "exec checkinFlags checkinPattern (js ''Slept well, mood 8'') = None \<and>
   parseMorningCheckin (js ''Slept well, mood 8'') = None"
proof -
  have "exec checkinFlags checkinPattern (js ''Slept well, mood 8'') = None"
    by (simp add: checkin_simps)
  then show ?thesis
    using parseMorningCheckin_strict [where message = "js ''Slept well, mood 8''"] by simp
qed

section \<open>The daily log: one row for a user and a date\<close>

lemma filter_key_distinct:
  "distinct (map f xs) \<Longrightarrow> filter (\<lambda>x. f x = k) xs = [] \<or> (\<exists>x. filter (\<lambda>x. f x = k) xs = [x])"
proof (induction xs)
  case Nil
  then show ?case by simp
next
  case (Cons a xs)
  show ?case
  proof (cases "f a = k")
    case True
    with Cons.prems have "\<forall>x\<in>set xs. f x \<noteq> k"
      by (auto simp: image_iff)
    then have "filter (\<lambda>x. f x = k) xs = []"
      by (simp add: filter_empty_conv)
    with True show ?thesis by simp
  next
    case False
    with Cons show ?thesis by simp
  qed
qed

lemma filter_map_single:
  assumes "distinct xs" "e \<in> set xs" "\<forall>l\<in>set xs. P (upd l) \<longleftrightarrow> l = e"
  shows "filter P (map upd xs) = [upd e]"
  using assms
proof (induction xs)
  case Nil
  then show ?case by simp
next
  case (Cons a xs)
  show ?case
  proof (cases "a = e")
    case True
    with Cons.prems have "\<forall>l\<in>set xs. \<not> P (upd l)"
      by auto
    then have "filter P (map upd xs) = []"
      by (simp add: filter_empty_conv)
    with True Cons.prems show ?thesis by simp
  next
    case False
    with Cons show ?thesis by auto
  qed
qed

lemma maybeSingle_simps [simp]:
  "maybeSingle [] = None" "maybeSingle [x] = Some x"
  by (simp_all add: maybeSingle_def)

text \<open>One call: afterwards the pair has exactly one row, with the payload of the call.\<close>

lemma createDailyLog_row:
  assumes "daily_logs_ok db"
  shows "\<exists>row. filter (\<lambda>l. dl_user_id l = userId \<and> dl_date l = date)
                 (daily_logs (snd (createDailyLog now db userId date p))) = [row] \<and>
               dl_checkin_json row = p"
proof -
  let ?key = "\<lambda>l. (dl_user_id l, dl_date l)"
  let ?logs = "daily_logs db"
  let ?P = "\<lambda>l. dl_user_id l = userId \<and> dl_date l = date"
  have d: "distinct (map ?key ?logs)" and i: "distinct (map dl_id ?logs)"
    using assms by (simp_all add: daily_logs_ok_def)
  from filter_key_distinct [OF d, of "(userId, date)"]
  consider "filter ?P ?logs = []" | e where "filter ?P ?logs = [e]"
    by auto
  then show ?thesis
  proof cases
    case 1
    then show ?thesis
      by (simp add: createDailyLog_def Let_def)
  next
    case (2 e)
    let ?upd = "\<lambda>l. if dl_id l = dl_id e
                     then l\<lparr>dl_user_id := userId, dl_date := date,
                            dl_checkin_json := p, dl_updated_at := now\<rparr>
                     else l"
    have "e \<in> set (filter ?P ?logs)"
      by (simp only: 2 list.set_intros)
    then have e: "e \<in> set ?logs" "?P e"
      by simp_all
    have only: "l = e" if "l \<in> set ?logs" "?P l" for l
    proof -
      from that have "l \<in> set (filter ?P ?logs)"
        by simp
      then show ?thesis
        by (simp only: 2) simp
    qed
    have ids: "l = e" if "l \<in> set ?logs" "dl_id l = dl_id e" for l
      using i that e(1) by (simp add: distinct_map inj_on_def)
    have "distinct ?logs"
      using i by (simp add: distinct_map)
    moreover have "\<forall>l\<in>set ?logs. ?P (?upd l) \<longleftrightarrow> l = e"
      using only ids by auto
    ultimately have "filter ?P (map ?upd ?logs) = [?upd e]"
      using e(1) by (intro filter_map_single) auto
    then show ?thesis
      by (simp add: createDailyLog_def 2 Let_def)
  qed
qed

text \<open>One call keeps the constraints of the table.\<close>

lemma createDailyLog_ok:
  assumes "daily_logs_ok db"
  shows "daily_logs_ok (snd (createDailyLog now db userId date p))"
proof -
  let ?key = "\<lambda>l. (dl_user_id l, dl_date l)"
  let ?logs = "daily_logs db"
  let ?P = "\<lambda>l. dl_user_id l = userId \<and> dl_date l = date"
  have d: "distinct (map ?key ?logs)" and i: "distinct (map dl_id ?logs)"
    and b: "\<forall>l\<in>set ?logs. dl_id l < daily_logs_seq db"
    using assms by (simp_all add: daily_logs_ok_def list_all_iff)
  from filter_key_distinct [OF d, of "(userId, date)"]
  consider "filter ?P ?logs = []" | e where "filter ?P ?logs = [e]"
    by auto
  then show ?thesis
  proof cases
    case 1
    then have "\<forall>l\<in>set ?logs. ?key l \<noteq> (userId, date)"
      by (auto simp: filter_empty_conv)
    then have "(userId, date) \<notin> ?key ` set ?logs"
      by auto
    moreover have "daily_logs_seq db \<notin> dl_id ` set ?logs"
      using b by auto
    ultimately show ?thesis
      using 1 d i b by (auto simp: createDailyLog_def Let_def daily_logs_ok_def list_all_iff)
  next
    case (2 e)
    let ?upd = "\<lambda>l. if dl_id l = dl_id e
                     then l\<lparr>dl_user_id := userId, dl_date := date,
                            dl_checkin_json := p, dl_updated_at := now\<rparr>
                     else l"
    have "e \<in> set (filter ?P ?logs)"
      by (simp only: 2 list.set_intros)
    then have e: "e \<in> set ?logs" "?P e"
      by simp_all
    have ids: "l = e" if "l \<in> set ?logs" "dl_id l = dl_id e" for l
      using i that e(1) by (simp add: distinct_map inj_on_def)
    have "map dl_id (map ?upd ?logs) = map dl_id ?logs"
      by simp
    moreover have "map ?key (map ?upd ?logs) = map ?key ?logs"
      using ids e(2) by auto
    moreover have "\<forall>l\<in>set (map ?upd ?logs). dl_id l < daily_logs_seq db"
      using b by auto
    ultimately show ?thesis
      using d i
      by (simp add: createDailyLog_def 2 Let_def daily_logs_ok_def list_all_iff del: map_map)
  qed
qed

lemma emptyDatabase_ok: "daily_logs_ok emptyDatabase"
  by (simp add: daily_logs_ok_def emptyDatabase_def)

text \<open>
  C4: on a table that satisfies its constraints, two calls of \<open>createDailyLog\<close> for the
  same user and date leave exactly one row for that pair, and the row holds the payload
  of the second call.
\<close>

theorem createDailyLog_twice:
  assumes "daily_logs_ok db"
  shows "\<exists>row. filter (\<lambda>l. dl_user_id l = userId \<and> dl_date l = date)
                 (daily_logs (snd (createDailyLog t2
                    (snd (createDailyLog t1 db userId date p1)) userId date p2))) = [row] \<and>
               dl_checkin_json row = p2"
  by (rule createDailyLog_row) (rule createDailyLog_ok [OF assms])

theorem createDailyLog_twice_witness:
  "daily_logs_ok emptyDatabase \<and>
   (\<exists>row. filter (\<lambda>l. dl_user_id l = 1 \<and> dl_date l = 20000)
            (daily_logs (snd (createDailyLog 2
               (snd (createDailyLog 1 emptyDatabase 1 20000 None)) 1 20000
               (Some emptyCheckin)))) = [row] \<and>
          dl_checkin_json row = Some emptyCheckin)"
  using createDailyLog_twice [OF emptyDatabase_ok, of 1 20000 2 1 None "Some emptyCheckin"]
    emptyDatabase_ok
  by simp

section \<open>Weekly report: completeness rate and streak\<close>

lemma fold_count:
  "fold (\<lambda>l count. if P l then count + 1 else count) logs n = n + length (filter P logs)"
  by (induction logs arbitrary: n) auto

lemma countCheckins_length:
  "countCheckins logs = length (filter (\<lambda>l. dl_checkin_json l \<noteq> None) logs)"
  by (simp add: countCheckins_def fold_count)

lemma length_filter_sort_key:
  "length (filter P (sort_key f xs)) = length (filter P xs)"
  by (simp add: filter_sort)

text \<open>The number the report counts: the rows of the user in the window that hold a check-in.\<close>

lemma checkinsThisWeek_window:
  "sd_checkinsThisWeek (weeklySummary today db userId) =
     length (filter (\<lambda>l. dl_user_id l = userId \<and> today - 6 \<le> dl_date l \<and> dl_date l \<le> today \<and>
                          dl_checkin_json l \<noteq> None) (daily_logs db))"
proof -
  let ?R = "\<lambda>l. dl_user_id l = userId \<and> dl_date l \<ge> today - 13 \<and> dl_date l \<le> today"
  let ?W = "\<lambda>l. dl_date l \<ge> today - 6 \<and> dl_date l \<le> today"
  let ?C = "\<lambda>l. dl_checkin_json l \<noteq> None"
  have "sd_checkinsThisWeek (weeklySummary today db userId)
          = length (filter ?C (filter ?W (sort_key dl_date (filter ?R (daily_logs db)))))"
    by (simp add: weeklySummary_def Let_def getDailyLogsInRange_def countCheckins_length)
  also have "\<dots> = length (filter (\<lambda>l. ?W l \<and> ?C l) (sort_key dl_date (filter ?R (daily_logs db))))"
    by (simp only: filter_filter)
  also have "\<dots> = length (filter (\<lambda>l. ?W l \<and> ?C l) (filter ?R (daily_logs db)))"
    by (rule length_filter_sort_key)
  also have "\<dots> = length (filter (\<lambda>l. ?R l \<and> ?W l \<and> ?C l) (daily_logs db))"
    by (simp only: filter_filter)
  also have "\<dots> = length (filter (\<lambda>l. dl_user_id l = userId \<and> today - 6 \<le> dl_date l \<and>
                          dl_date l \<le> today \<and> dl_checkin_json l \<noteq> None) (daily_logs db))"
    by (rule arg_cong [where f = length], rule filter_cong) auto
  finally show ?thesis .
qed

lemma completenessRate_5: "completenessRate 5 = 71"
proof -
  have "round (500 / 7 :: real) = 71"
    unfolding round_def by (rule floor_unique) simp_all
  then show ?thesis
    by (simp add: completenessRate_def)
qed

text \<open>
  C6: the completeness rate of the report is \<open>round (c / 7 * 100)\<close> for the number \<open>c\<close> of
  rows of the user dated within the last seven days that hold a check-in, and it is 71
  when there are five of them.
\<close>

theorem completenessRate_weekly:
  "sd_completenessRate (weeklySummary today db userId) =
     round (real (length (filter (\<lambda>l. dl_user_id l = userId \<and> today - 6 \<le> dl_date l \<and>
                                     dl_date l \<le> today \<and> dl_checkin_json l \<noteq> None)
                            (daily_logs db))) / 7 * 100) \<and>
   (length (filter (\<lambda>l. dl_user_id l = userId \<and> today - 6 \<le> dl_date l \<and>
                        dl_date l \<le> today \<and> dl_checkin_json l \<noteq> None)
               (daily_logs db)) = 5
      \<longrightarrow> sd_completenessRate (weeklySummary today db userId) = 71)"
proof -
  have "sd_completenessRate (weeklySummary today db userId)
          = completenessRate (sd_checkinsThisWeek (weeklySummary today db userId))"
    by (simp add: weeklySummary_def Let_def)
  then show ?thesis
    using completenessRate_5
    by (simp only: checkinsThisWeek_window) (simp add: completenessRate_def)
qed

theorem completenessRate_weekly_witness:
  "length (filter (\<lambda>l. dl_user_id l = 1 \<and> 10 - 6 \<le> dl_date l \<and> dl_date l \<le> 10 \<and>
                       dl_checkin_json l \<noteq> None)
            (daily_logs (emptyDatabase\<lparr>daily_logs :=
               map (\<lambda>d. \<lparr>dl_id = nat d, dl_user_id = 1, dl_date = d,
                          dl_checkin_json = Some emptyCheckin, dl_created_at = 0,
                          dl_updated_at = 0\<rparr>) [4, 5, 7, 8, 10]\<rparr>))) = 5 \<and>
   sd_completenessRate (weeklySummary 10
      (emptyDatabase\<lparr>daily_logs :=
         map (\<lambda>d. \<lparr>dl_id = nat d, dl_user_id = 1, dl_date = d,
                    dl_checkin_json = Some emptyCheckin, dl_created_at = 0,
                    dl_updated_at = 0\<rparr>) [4, 5, 7, 8, 10]\<rparr>) 1) = 71"
proof -
  let ?db = "emptyDatabase\<lparr>daily_logs :=
         map (\<lambda>d. \<lparr>dl_id = nat d, dl_user_id = 1, dl_date = d,
                    dl_checkin_json = Some emptyCheckin, dl_created_at = 0,
                    dl_updated_at = 0\<rparr>) [4, 5, 7, 8, 10]\<rparr>"
  have five: "length (filter (\<lambda>l. dl_user_id l = 1 \<and> 10 - 6 \<le> dl_date l \<and> dl_date l \<le> 10 \<and>
                       dl_checkin_json l \<noteq> None) (daily_logs ?db)) = 5"
    by simp
  from completenessRate_weekly [of 10 ?db 1] five show ?thesis
    by blast
qed

subsection \<open>The streak\<close>

lemma leadingDays_le_longestRun: "leadingDays bs \<le> longestRun bs"
  by (cases bs) simp_all

text \<open>
  The loop, started in any state with \<open>streak \<le> maxStreak\<close>, ends with the greatest of
  \<open>maxStreak\<close>, the current streak prolonged by the days that follow, and the longest
  run among the days to come.
\<close>

lemma fold_streakStep:
  "streak \<le> maxStreak \<Longrightarrow>
   snd (fold streakStep bs (streak, maxStreak))
     = max maxStreak (max (streak + leadingDays bs) (longestRun bs))"
proof (induction bs arbitrary: streak maxStreak)
  case Nil
  then show ?case by (simp add: max_def)
next
  case (Cons b bs)
  show ?case
  proof (cases b)
    case True
    have "snd (fold streakStep bs (streak + 1, max maxStreak (streak + 1)))
        = max (max maxStreak (streak + 1))
            (max (streak + 1 + leadingDays bs) (longestRun bs))"
      by (rule Cons.IH) simp
    moreover have "streakStep True (streak, maxStreak) = (streak + 1, max maxStreak (streak + 1))"
      by (simp add: streakStep_def max_def)
    moreover have "max (max maxStreak (streak + 1)) (max (streak + 1 + a) r)
        = max maxStreak (max (streak + Suc a) (max (Suc a) r))" for a r :: nat
      by (simp add: max_def)
    ultimately show ?thesis
      using True by simp
  next
    case False
    have "snd (fold streakStep bs (0, maxStreak))
        = max maxStreak (max (0 + leadingDays bs) (longestRun bs))"
      by (rule Cons.IH) simp
    moreover have "streakStep False (streak, maxStreak) = (0, maxStreak)"
      by (simp add: streakStep_def)
    moreover have "a \<le> r \<Longrightarrow> max maxStreak (max (0 + a) r) = max maxStreak (max (streak + 0) (max 0 r))"
      for a r :: nat
      using Cons.prems by (simp add: max_def)
    ultimately show ?thesis
      using False leadingDays_le_longestRun [of bs] by simp
  qed
qed

text \<open>The loop computes \<open>longestRun\<close> of the seven tests it makes.\<close>

lemma longestStreak_fold:
  "longestStreak logs weekStart weekEnd
     = longestRun (map (\<lambda>i. hasCheckin logs (weekEnd - (6 - int i))) [0..<7])"
proof -
  let ?bs = "map (\<lambda>i. hasCheckin logs (weekEnd - (6 - int i))) [0..<7]"
  have "longestStreak logs weekStart weekEnd = snd (fold streakStep ?bs (0, 0))"
    by (simp add: longestStreak_def fold_map comp_def)
  then show ?thesis
    using leadingDays_le_longestRun [of ?bs]
    by (simp add: fold_streakStep max_def)
qed

text \<open>
  When no two rows have the same date, the row that \<open>find\<close> returns is the only row of
  its date, so the test of the loop is the test on the rows.
\<close>

lemma hasCheckin_distinct:
  "distinct (map dl_date logs) \<Longrightarrow> hasCheckin logs d = dayHasPayload logs d"
proof (induction logs)
  case Nil
  then show ?case
    by (simp add: hasCheckin_def dayHasPayload_def)
next
  case (Cons a logs)
  show ?case
  proof (cases "dl_date a = d")
    case True
    with Cons.prems have "\<forall>l\<in>set logs. dl_date l \<noteq> d"
      by (auto simp: image_iff)
    then have "\<not> list_ex (\<lambda>l. dl_date l = d \<and> dl_checkin_json l \<noteq> None) logs"
      by (auto simp: list_ex_iff)
    with True show ?thesis
      by (simp add: hasCheckin_def dayHasPayload_def)
  next
    case False
    with Cons show ?thesis
      by (simp add: hasCheckin_def dayHasPayload_def)
  qed
qed

lemma longestStreak_longestRun:
  assumes "distinct (map dl_date logs)"
  shows "longestStreak logs weekStart weekEnd = longestRun (windowDays logs weekEnd)"
proof -
  have "map (\<lambda>i. hasCheckin logs (weekEnd - (6 - int i))) [0..<7]
          = map (\<lambda>i. dayHasPayload logs (weekEnd - (6 - int i))) [0..<7]"
    by (simp only: hasCheckin_distinct [OF assms])
  also have "\<dots> = windowDays logs weekEnd"
    by (simp add: windowDays_def upt_conv_Cons)
  finally show ?thesis
    by (simp only: longestStreak_fold)
qed

text \<open>\<open>longestRun\<close> is the length of a longest block of consecutive \<open>True\<close>.\<close>

lemma leadingDays_split:
  "\<exists>ys. bs = replicate (leadingDays bs) True @ ys"
  by (induction bs) auto

lemma longestRun_block:
  "n \<le> longestRun bs \<Longrightarrow> \<exists>xs ys. bs = xs @ replicate n True @ ys"
proof (induction bs)
  case Nil
  then show ?case by simp
next
  case (Cons b bs)
  define k where "k = leadingDays (b # bs)"
  show ?case
  proof (cases "n \<le> k")
    case True
    obtain zs where "b # bs = replicate k True @ zs"
      using leadingDays_split [of "b # bs"] unfolding k_def by blast
    also have "replicate k True @ zs = (replicate n True @ replicate (k - n) True) @ zs"
      using True by (simp flip: replicate_add)
    also have "\<dots> = [] @ replicate n True @ (replicate (k - n) True @ zs)"
      by (simp only: append_assoc append_Nil)
    finally show ?thesis
      by blast
  next
    case False
    with Cons.prems have "n \<le> longestRun bs"
      by (simp add: k_def)
    then obtain xs ys where "bs = xs @ replicate n True @ ys"
      using Cons.IH by blast
    then have "b # bs = (b # xs) @ replicate n True @ ys"
      by simp
    then show ?thesis
      by blast
  qed
qed

lemma leadingDays_block: "n \<le> leadingDays (replicate n True @ ys)"
  by (induction n) simp_all

lemma block_longestRun:
  "n \<le> longestRun (xs @ replicate n True @ ys)"
proof (induction xs)
  case Nil
  show ?case
    using leadingDays_block [of n ys] leadingDays_le_longestRun [of "replicate n True @ ys"]
    by simp
next
  case (Cons x xs)
  then show ?case
    by simp
qed

text \<open>
  C5: on the rows of a week, no two of them of the same date, \<open>longestStreak\<close> returns
  the greatest number of consecutive days of the window for which a row with a payload
  that is not \<open>null\<close> exists: a block of that many such days exists, and every block of
  consecutive such days is at most that long.  For a week with a payload on every day but
  the fourth (Monday to Wednesday and Friday to Sunday) it returns 3.
\<close>

theorem longestStreak_maximum_run:
  assumes "distinct (map dl_date logs)"
  shows "(\<exists>xs ys. windowDays logs weekEnd
              = xs @ replicate (longestStreak logs weekStart weekEnd) True @ ys) \<and>
   (\<forall>n xs ys. windowDays logs weekEnd = xs @ replicate n True @ ys
      \<longrightarrow> n \<le> longestStreak logs weekStart weekEnd) \<and>
   (windowDays logs weekEnd = [True, True, True, False, True, True, True]
      \<longrightarrow> longestStreak logs weekStart weekEnd = 3)"
proof (intro conjI allI impI)
  show "\<exists>xs ys. windowDays logs weekEnd
              = xs @ replicate (longestStreak logs weekStart weekEnd) True @ ys"
    by (rule longestRun_block) (simp add: longestStreak_longestRun [OF assms])
next
  fix n xs ys
  assume "windowDays logs weekEnd = xs @ replicate n True @ ys"
  then show "n \<le> longestStreak logs weekStart weekEnd"
    using block_longestRun [of n xs ys] by (simp add: longestStreak_longestRun [OF assms])
next
  assume "windowDays logs weekEnd = [True, True, True, False, True, True, True]"
  then show "longestStreak logs weekStart weekEnd = 3"
    by (simp add: longestStreak_longestRun [OF assms])
qed

text \<open>
  A week from Monday, day 4, to Sunday, day 10, with a row for each day; the row of
  Thursday, day 7, holds \<open>null\<close>.
\<close>

theorem longestStreak_maximum_run_witness:
  "distinct (map dl_date
     (map (\<lambda>(d, p). \<lparr>dl_id = nat d, dl_user_id = 1, dl_date = d, dl_checkin_json = p,
                     dl_created_at = 0, dl_updated_at = 0\<rparr>)
        [(4, Some emptyCheckin), (5, Some emptyCheckin), (6, Some emptyCheckin), (7, None),
         (8, Some emptyCheckin), (9, Some emptyCheckin), (10, Some emptyCheckin)])) \<and>
   windowDays
     (map (\<lambda>(d, p). \<lparr>dl_id = nat d, dl_user_id = 1, dl_date = d, dl_checkin_json = p,
                     dl_created_at = 0, dl_updated_at = 0\<rparr>)
        [(4, Some emptyCheckin), (5, Some emptyCheckin), (6, Some emptyCheckin), (7, None),
         (8, Some emptyCheckin), (9, Some emptyCheckin), (10, Some emptyCheckin)]) 10
     = [True, True, True, False] @ replicate 3 True @ [] \<and>
   windowDays
     (map (\<lambda>(d, p). \<lparr>dl_id = nat d, dl_user_id = 1, dl_date = d, dl_checkin_json = p,
                     dl_created_at = 0, dl_updated_at = 0\<rparr>)
        [(4, Some emptyCheckin), (5, Some emptyCheckin), (6, Some emptyCheckin), (7, None),
         (8, Some emptyCheckin), (9, Some emptyCheckin), (10, Some emptyCheckin)]) 10
     = [True, True, True, False, True, True, True] \<and>
   longestStreak
     (map (\<lambda>(d, p). \<lparr>dl_id = nat d, dl_user_id = 1, dl_date = d, dl_checkin_json = p,
                     dl_created_at = 0, dl_updated_at = 0\<rparr>)
        [(4, Some emptyCheckin), (5, Some emptyCheckin), (6, Some emptyCheckin), (7, None),
         (8, Some emptyCheckin), (9, Some emptyCheckin), (10, Some emptyCheckin)]) 4 10 = 3"
proof -
  let ?logs = "map (\<lambda>(d, p). \<lparr>dl_id = nat d, dl_user_id = 1, dl_date = d, dl_checkin_json = p,
                     dl_created_at = 0, dl_updated_at = 0\<rparr>)
        [(4 :: int, Some emptyCheckin), (5, Some emptyCheckin), (6, Some emptyCheckin), (7, None),
         (8, Some emptyCheckin), (9, Some emptyCheckin), (10, Some emptyCheckin)]"
  have d: "distinct (map dl_date ?logs)"
    by simp
  have w: "windowDays ?logs 10 = [True, True, True, False, True, True, True]"
    by (simp add: windowDays_def dayHasPayload_def)
  from longestStreak_maximum_run [OF d, of 10 4] d w show ?thesis
    by (simp add: numeral_3_eq_3)
qed

text \<open>
  The same for the report: on a table that satisfies its constraints, the streak of the
  summary is the longest run of days, among the seven that end today, for which the user
  has a row with a payload.
\<close>

lemma weeklySummary_streak:
  assumes "daily_logs_ok db"
  shows "sd_streak (weeklySummary today db userId)
           = longestRun
               (map (\<lambda>d. list_ex (\<lambda>l. dl_user_id l = userId \<and> dl_date l = d \<and>
                                        dl_checkin_json l \<noteq> None) (daily_logs db))
                  [today - 6, today - 5, today - 4, today - 3, today - 2, today - 1, today])"
proof -
  let ?R = "\<lambda>l. dl_user_id l = userId \<and> dl_date l \<ge> today - 13 \<and> dl_date l \<le> today"
  let ?W = "\<lambda>l. dl_date l \<ge> today - 6 \<and> dl_date l \<le> today"
  let ?week = "filter ?W (sort_key dl_date (filter ?R (daily_logs db)))"
  have key: "distinct (map (\<lambda>l. (dl_user_id l, dl_date l)) (daily_logs db))"
    using assms by (simp add: daily_logs_ok_def)
  then have rows: "distinct (daily_logs db)"
    and inj: "inj_on (\<lambda>l. (dl_user_id l, dl_date l)) (set (daily_logs db))"
    by (simp_all add: distinct_map)
  have "inj_on dl_date (set (filter ?R (daily_logs db)))"
  proof (rule inj_onI)
    fix x y
    assume "x \<in> set (filter ?R (daily_logs db))" "y \<in> set (filter ?R (daily_logs db))"
      "dl_date x = dl_date y"
    then have x: "x \<in> set (daily_logs db)" and y: "y \<in> set (daily_logs db)"
      and e: "(dl_user_id x, dl_date x) = (dl_user_id y, dl_date y)"
      by simp_all
    show "x = y"
      by (rule inj_onD [OF inj e x y])
  qed
  then have "distinct (map dl_date (sort_key dl_date (filter ?R (daily_logs db))))"
    using rows by (simp add: distinct_map)
  then have d: "distinct (map dl_date ?week)"
    by (rule distinct_map_filter)
  have s: "sd_streak (weeklySummary today db userId) = longestStreak ?week (today - 6) today"
    by (simp add: weeklySummary_def Let_def getDailyLogsInRange_def)
  have h: "dayHasPayload ?week d
          = list_ex (\<lambda>l. dl_user_id l = userId \<and> dl_date l = d \<and> dl_checkin_json l \<noteq> None)
              (daily_logs db)"
    if "today - 6 \<le> d" "d \<le> today" for d
    using that by (auto simp: dayHasPayload_def list_ex_iff)
  have w: "windowDays ?week today
          = map (\<lambda>d. list_ex (\<lambda>l. dl_user_id l = userId \<and> dl_date l = d \<and>
                                   dl_checkin_json l \<noteq> None) (daily_logs db))
              [today - 6, today - 5, today - 4, today - 3, today - 2, today - 1, today]"
    unfolding windowDays_def
  proof (rule map_cong [OF refl])
    fix d
    assume "d \<in> set [today - 6, today - 5, today - 4, today - 3, today - 2, today - 1, today]"
    then have "today - 6 \<le> d" "d \<le> today"
      by auto
    then show "dayHasPayload ?week d
          = list_ex (\<lambda>l. dl_user_id l = userId \<and> dl_date l = d \<and> dl_checkin_json l \<noteq> None)
              (daily_logs db)"
      by (rule h)
  qed
  show ?thesis
    by (simp only: s longestStreak_longestRun [OF d] w)
qed

section \<open>The webhook handler\<close>

text \<open>
  C9: when the parsed payload has an empty sender or an empty body, the handler answers
  400 and returns the store as it received it: no user, message or daily log is written,
  and nothing is sent.
\<close>

theorem webhook_rejects_invalid_payload:
  assumes "msg_from (parseIncomingMessage reqBody) = [] \<or>
           msg_body (parseIncomingMessage reqBody) = []"
  shows "handleWhatsAppWebhook env db reqBody =
           Some \<lparr>out_response = \<lparr>status = 400, json = ErrorBody (js ''Invalid message data'')\<rparr>,
                 out_db = db, out_sent = []\<rparr>"
  using assms by (auto simp: handleWhatsAppWebhook_def Let_def)

theorem webhook_rejects_invalid_payload_witness:
  "msg_body (parseIncomingMessage (Some [''From'' \<mapsto> js ''whatsapp:+15550109999''])) = [] \<and>
   handleWhatsAppWebhook (exampleEnv (\<lambda>body from to. Some (js ''SM1''))) emptyDatabase
       (Some [''From'' \<mapsto> js ''whatsapp:+15550109999''])
     = Some \<lparr>out_response = \<lparr>status = 400, json = ErrorBody (js ''Invalid message data'')\<rparr>,
             out_db = emptyDatabase, out_sent = []\<rparr>"
proof -
  have b: "msg_body (parseIncomingMessage (Some [''From'' \<mapsto> js ''whatsapp:+15550109999''])) = []"
    by (simp add: parseIncomingMessage_def orEmpty_def)
  then show ?thesis
    using webhook_rejects_invalid_payload
      [of "Some [''From'' \<mapsto> js ''whatsapp:+15550109999'']"
          "exampleEnv (\<lambda>body from to. Some (js ''SM1''))" emptyDatabase]
    by simp
qed

subsection \<open>The reply of the goal, check-in and fallback branches\<close>

text \<open>
  In the three branches that end in lines 141 to 151, the outbound message is stored
  exactly when the send returned a message identifier, and the response carries that
  identifier, \<open>null\<close> after a failed send.
\<close>

lemma sendReply_failed:
  assumes "sendWhatsAppMessage (twilio_create env) (twilio_number env) phone responseMessage
             = Some (sent, None)"
  shows "sendReply env db user phone responseMessage =
           Some \<lparr>out_response = \<lparr>status = 200, json = StatusSidBody (js ''success'') None\<rparr>,
                 out_db = db, out_sent = sent\<rparr>"
  using assms by (simp add: sendReply_def truthy_def orNull_def)

lemma sendReply_succeeded:
  assumes "sendWhatsAppMessage (twilio_create env) (twilio_number env) phone responseMessage
             = Some (sent, Some sid)" "sid \<noteq> []"
  shows "sendReply env db user phone responseMessage =
           Some \<lparr>out_response = \<lparr>status = 200, json = StatusSidBody (js ''success'') (Some sid)\<rparr>,
                 out_db = snd (logMessage (clock env) db (u_id user) outbound responseMessage),
                 out_sent = sent\<rparr>"
  using assms by (simp add: sendReply_def truthy_def orNull_def)

subsection \<open>The weekly-report branch\<close>

lemma weekly_report_command:
  "regexTest weeklyReportFlags weeklyReportPattern (trim (js ''weekly report''))"
proof -
  have "trim (js ''weekly report'') = js ''weekly report''"
    by (simp add: trim_def js_def isWhiteSpace_def)
  then show ?thesis
    by (simp add: regexTest_def exec_def weeklyReportPattern_def weeklyReportFlags_def lit_def
        js_def one_def canonicalize_def accept_def)
qed

text \<open>
  C1 at the command \<open>weekly report\<close> from a new sender, with a Twilio client that
  rejects every message: the send returns \<open>null\<close> and nothing is sent, yet the store
  ends with the outbound message next to the inbound one, and the response is
  \<open>{status: 'Weekly report sent'}\<close>, without a message identifier.
\<close>

theorem weekly_report_logged_after_failed_send:
  "handleWhatsAppWebhook (exampleEnv (\<lambda>body from to. None)) emptyDatabase
       (Some [''From'' \<mapsto> js ''whatsapp:+15550109999'', ''Body'' \<mapsto> js ''weekly report''])
     = Some \<lparr>out_response = \<lparr>status = 200, json = StatusBody (js ''Weekly report sent'')\<rparr>,
             out_db = emptyDatabase
               \<lparr>users := [\<lparr>u_id = 1, u_phone = js ''+15550109999'', u_name = None,
                            u_timezone = js ''UTC'', u_created_at = 1000\<rparr>],
                users_seq := 2,
                messages := [\<lparr>m_id = 1, m_user_id = 1, m_direction = inbound,
                               m_body = js ''weekly report'', m_timestamp = 1000\<rparr>,
                             \<lparr>m_id = 2, m_user_id = 1, m_direction = outbound,
                               m_body = js ''Your week in review'', m_timestamp = 1000\<rparr>],
                messages_seq := 3\<rparr>,
             out_sent = []\<rparr> \<and>
   sendWhatsAppMessage (\<lambda>body from to. None) (js ''whatsapp:+14155238886'')
       (js ''whatsapp:+15550109999'') (js ''Your week in review'') = Some ([], None)"
proof -
  let ?env = "exampleEnv (\<lambda>body from to. None)"
  let ?req = "Some [''From'' \<mapsto> js ''whatsapp:+15550109999'', ''Body'' \<mapsto> js ''weekly report'']"
  have p: "parseIncomingMessage ?req =
      \<lparr>msg_from = js ''whatsapp:+15550109999'', msg_body = js ''weekly report'',
       message_sid = [], profile_name = [], wa_id = []\<rparr>"
    by (simp add: parseIncomingMessage_def orEmpty_def)
  have n: "normalizePhone (js ''whatsapp:+15550109999'') = js ''+15550109999''"
    by (simp add: normalizePhone_def js_def startsWith_def trim_def stripWhiteSpace_def
        isWhiteSpace_def)
  have s: "sendWhatsAppMessage (\<lambda>body from to. None) w (js ''whatsapp:+15550109999'')
             (js ''Your week in review'') = Some ([], None)" for w
    by (subst sendWhatsAppMessage_short) (simp_all add: js_def)
  have t: "trim [] = []"
    by (simp add: trim_def)
  have ne: "js ''whatsapp:+15550109999'' \<noteq> []" "js ''weekly report'' \<noteq> []"
    by (simp_all add: js_def)
  have "handleWhatsAppWebhook ?env emptyDatabase ?req
     = Some \<lparr>out_response = \<lparr>status = 200, json = StatusBody (js ''Weekly report sent'')\<rparr>,
             out_db = emptyDatabase
               \<lparr>users := [\<lparr>u_id = 1, u_phone = js ''+15550109999'', u_name = None,
                            u_timezone = js ''UTC'', u_created_at = 1000\<rparr>],
                users_seq := 2,
                messages := [\<lparr>m_id = 1, m_user_id = 1, m_direction = inbound,
                               m_body = js ''weekly report'', m_timestamp = 1000\<rparr>,
                             \<lparr>m_id = 2, m_user_id = 1, m_direction = outbound,
                               m_body = js ''Your week in review'', m_timestamp = 1000\<rparr>],
                messages_seq := 3\<rparr>,
             out_sent = []\<rparr>"
    unfolding handleWhatsAppWebhook_def p
    by (simp add: ne Let_def getUserByPhone_def createUser_def n logMessage_def orNull_def t
        weekly_report_command weeklyReportBranch_def generateWeeklyReport_def exampleEnv_def s
        emptyDatabase_def)
  with s show ?thesis
    by simp
qed

end
